theory Spec2Isabelle
  imports Main "HOL-Library.Sublist"
begin

section \<open>JavaScript strings and the platform functions the agent calls\<close>

text \<open>
  A JavaScript string is modelled as a \<open>string\<close> (a list of code units). Only the
  ASCII range matters to the agent: every pattern it compares against is ASCII.
  \<open>toLowerCase\<close> maps \<open>A\<close>..\<open>Z\<close> to \<open>a\<close>..\<open>z\<close> and leaves every other
  code unit alone.
\<close>

definition lower_char :: "char \<Rightarrow> char" where
  "lower_char c =
     (let n = (of_char c :: nat) in if 65 \<le> n \<and> n \<le> 90 then char_of (n + 32) else c)"

definition toLowerCase :: "string \<Rightarrow> string" where
  "toLowerCase s = map lower_char s"

text \<open>\<open>String.prototype.includes\<close>: the pattern occurs at some position
  (\<open>includes\<close> is a keyword of Isabelle, hence the prefix).\<close>

fun str_includes :: "string \<Rightarrow> string \<Rightarrow> bool" where
  "str_includes [] pat = (pat = [])"
| "str_includes (c # cs) pat = (prefix pat (c # cs) \<or> str_includes cs pat)"

text \<open>
  \<open>String.prototype.replace\<close> with a string pattern and a replacement free of \<open>$\<close>:
  the first occurrence is replaced, a string without an occurrence is returned as it is.
\<close>

fun replace_first :: "string \<Rightarrow> string \<Rightarrow> string \<Rightarrow> string" where
  "replace_first [] pat rep = (if pat = [] then rep else [])"
| "replace_first (c # cs) pat rep =
     (if prefix pat (c # cs) then rep @ drop (length pat) (c # cs)
      else c # replace_first cs pat rep)"

text \<open>\<open>String.prototype.split\<close> with a one-character separator.\<close>

fun split_on :: "char \<Rightarrow> string \<Rightarrow> string list" where
  "split_on sep [] = [[]]"
| "split_on sep (c # cs) =
     (if c = sep then [] # split_on sep cs
      else (case split_on sep cs of
              w # ws \<Rightarrow> (c # w) # ws
            | [] \<Rightarrow> [[c]]))"

text \<open>
  White space as \<open>trim\<close> and the regular expression classes \<open>\\s\<close>, \<open>\\S\<close> see it:
  tab, line feed, vertical tab, form feed, carriage return, space and the no-break space.
\<close>

definition is_space :: "char \<Rightarrow> bool" where
  "is_space c = ((of_char c :: nat) \<in> {9, 10, 11, 12, 13, 32, 160})"

definition trim :: "string \<Rightarrow> string" where
  "trim s = rev (dropWhile is_space (rev (dropWhile is_space s)))"

text \<open>A string is truthy when it is not empty; \<open>null\<close> is \<open>None\<close>.\<close>

definition truthy :: "string option \<Rightarrow> bool" where
  "truthy v = (case v of None \<Rightarrow> False | Some s \<Rightarrow> s \<noteq> [])"

text \<open>A value interpolated into a template string; \<open>null\<close> prints as \<open>null\<close>.\<close>

definition interpolate :: "string option \<Rightarrow> string" where
  "interpolate v = (case v of None \<Rightarrow> ''null'' | Some s \<Rightarrow> s)"

text \<open>A value between double quotes, as the shell commands are built.\<close>

definition quoted :: "string \<Rightarrow> string" where
  "quoted s = [CHR 0x22] @ s @ [CHR 0x22]"

subsection \<open>\<open>path.extname\<close> (POSIX)\<close>

text \<open>
  Node's \<open>path.posix.extname\<close> scans the path from its last character backwards,
  keeping five variables. The loop below is that scan: \<open>extname_loop p i s\<close> has still
  to visit the indices below \<open>i\<close>. The value \<open>-1\<close> stands for "not seen yet", as in
  the library.
\<close>

record ext_state =
  startDot :: int
  startPart :: int
  endPos :: int
  matchedSlash :: bool
  preDotState :: int

definition ext_init :: ext_state where
  "ext_init = \<lparr>startDot = -1, startPart = 0, endPos = -1, matchedSlash = True, preDotState = 0\<rparr>"

definition ext_visit :: "char \<Rightarrow> nat \<Rightarrow> ext_state \<Rightarrow> ext_state" where
  "ext_visit code i s =
     (let s1 = (if endPos s = -1 then s\<lparr>matchedSlash := False, endPos := int i + 1\<rparr> else s)
      in if code = CHR ''.'' then
           (if startDot s1 = -1 then s1\<lparr>startDot := int i\<rparr>
            else if preDotState s1 \<noteq> 1 then s1\<lparr>preDotState := 1\<rparr> else s1)
         else if startDot s1 \<noteq> -1 then s1\<lparr>preDotState := -1\<rparr>
         else s1)"

fun extname_loop :: "string \<Rightarrow> nat \<Rightarrow> ext_state \<Rightarrow> ext_state" where
  "extname_loop p 0 s = s"
| "extname_loop p (Suc i) s =
     (if p ! i = CHR ''/'' then
        (if \<not> matchedSlash s then s\<lparr>startPart := int i + 1\<rparr>
         else extname_loop p i s)
      else extname_loop p i (ext_visit (p ! i) i s))"

definition extname :: "string \<Rightarrow> string" where
  "extname p =
     (let s = extname_loop p (length p) ext_init in
      if startDot s = -1 \<or> endPos s = -1 \<or> preDotState s = 0 \<or>
         (preDotState s = 1 \<and> startDot s = endPos s - 1 \<and> startDot s = startPart s + 1)
      then []
      else take (nat (endPos s) - nat (startDot s)) (drop (nat (startDot s)) p))"

section \<open>File type detection (utils.js)\<close>

datatype file_type = Pdf | Document | Image | Unknown

definition getFileType :: "string \<Rightarrow> file_type" where
  "getFileType filename =
     (let ext = toLowerCase (extname filename) in
      if ext = ''.pdf'' then Pdf
      else if ext \<in> set [''.doc'', ''.docx'', ''.rtf'', ''.odt'', ''.txt'', ''.md''] then Document
      else if ext \<in> set [''.png'', ''.jpg'', ''.jpeg''] then Image
      else Unknown)"

section \<open>Errors (errors.js)\<close>

text \<open>
  The agent's error classes, each with its message and its extra field
  (\<open>fileType\<close>, \<open>printerName\<close>, \<open>jobId\<close>). \<open>SystemError\<close> stands for an
  error thrown by the platform itself (the file system, \<open>Buffer.from\<close>).
\<close>

datatype agent_error =
    ConversionError string string
  | PrinterError string "string option"
  | JobError string string
  | SystemError string

fun error_message :: "agent_error \<Rightarrow> string" where
  "error_message (ConversionError m t) = m"
| "error_message (PrinterError m n) = m"
| "error_message (JobError m j) = m"
| "error_message (SystemError m) = m"

section \<open>The platform\<close>

text \<open>
  The file system maps a path to the bytes stored there. What a child process returns to
  its callback is an \<open>exec_result\<close>: the error's message (\<open>None\<close> when the process
  succeeded), and the two output streams.
\<close>

type_synonym fs = "string \<rightharpoonup> string"

record exec_result =
  exec_error :: "string option"
  exec_stdout :: string
  exec_stderr :: string

text \<open>
  Everything the agent does not decide itself is a field of the platform: the path
  functions other than \<open>extname\<close>, the outcome of every child process (which may change
  the file system), of \<open>which\<close>, of decoding the payload, of parsing a PDF, whether
  writing or unlinking a path fails, and what \<open>socket.connected\<close> holds each time it is
  read (\<open>connected_at n\<close> is the value at the \<open>n\<close>-th read).
\<close>

record platform =
  path_join :: "string \<Rightarrow> string \<Rightarrow> string"
  path_dirname :: "string \<Rightarrow> string"
  path_basename :: "string \<Rightarrow> string \<Rightarrow> string"
  exec_shell :: "string \<Rightarrow> fs \<Rightarrow> exec_result \<times> fs"
  exec_file :: "string \<Rightarrow> string list \<Rightarrow> fs \<Rightarrow> exec_result \<times> fs"
  which_found :: "string \<Rightarrow> bool"
  base64_decode :: "string option \<Rightarrow> string + string"
  pdf_load :: "string \<Rightarrow> string + nat"
  write_error :: "string \<Rightarrow> string option"
  unlink_error :: "string \<Rightarrow> string option"
  connected_at :: "nat \<Rightarrow> bool"

definition existsSync :: "fs \<Rightarrow> string \<Rightarrow> bool" where
  "existsSync files path = (files path \<noteq> None)"

definition readFileSync :: "fs \<Rightarrow> string \<Rightarrow> string + string" where
  "readFileSync files path =
     (case files path of
        None \<Rightarrow> Inl (''ENOENT: no such file or directory, open '' @ path)
      | Some bytes \<Rightarrow> Inr bytes)"

definition writeFileSync :: "platform \<Rightarrow> string \<Rightarrow> string \<Rightarrow> fs \<Rightarrow> string + fs" where
  "writeFileSync pf path bytes files =
     (case write_error pf path of
        Some m \<Rightarrow> Inl m
      | None \<Rightarrow> Inr (files(path \<mapsto> bytes)))"

definition unlinkSync :: "platform \<Rightarrow> string \<Rightarrow> fs \<Rightarrow> string + fs" where
  "unlinkSync pf path files =
     (case unlink_error pf path of
        Some m \<Rightarrow> Inl m
      | None \<Rightarrow> Inr (files(path := None)))"

section \<open>Conversion and verification (utils.js)\<close>

definition CONVERSION_TIMEOUT :: nat where
  "CONVERSION_TIMEOUT = 60000"

text \<open>
  \<open>convertDocumentToPDF\<close>: the promise is rejected (\<open>Inl\<close>) or resolved with the output
  path; the file system is returned as LibreOffice left it.
\<close>

definition convertDocumentToPDF :: "platform \<Rightarrow> string \<Rightarrow> fs \<Rightarrow> (agent_error + string) \<times> fs" where
  "convertDocumentToPDF pf inputPath files =
     (let outputDir = path_dirname pf inputPath;
          baseName = path_basename pf inputPath (extname inputPath);
          outputPath = path_join pf outputDir (baseName @ ''.pdf'');
          cmd = ''libreoffice --headless --convert-to pdf --outdir '' @ quoted outputDir @ '' ''
                  @ quoted inputPath;
          (r, files') = exec_shell pf cmd files
      in case exec_error r of
           Some m \<Rightarrow>
             (Inl (ConversionError
                (''LibreOffice conversion failed: '' @ (if exec_stderr r \<noteq> [] then exec_stderr r else m))
                ''document''), files')
         | None \<Rightarrow>
             if existsSync files' outputPath then (Inr outputPath, files')
             else (Inl (ConversionError ''PDF output file not created'' ''document''), files'))"

text \<open>The argument vector both ImageMagick variants are run with.\<close>

definition magick_args :: "string \<Rightarrow> string \<Rightarrow> string list" where
  "magick_args inputPath outputPath =
     [inputPath, ''-resize'', ''1240x1754>'', ''-gravity'', ''center'', ''-background'', ''white'',
      ''-extent'', ''1240x1754'', ''-units'', ''PixelsPerInch'', ''-density'', ''150'', outputPath]"

definition tryMagickV6 :: "platform \<Rightarrow> string list \<Rightarrow> string \<Rightarrow> fs \<Rightarrow> (agent_error + string) \<times> fs" where
  "tryMagickV6 pf args outputPath files =
     (if \<not> which_found pf ''convert'' then
        (Inl (ConversionError ''ImageMagick not found. Install with: sudo apt install imagemagick''
               ''image''), files)
      else
        (let (r, files') = exec_file pf ''convert'' args files in
         case exec_error r of
           Some m \<Rightarrow> (Inl (ConversionError (''Image conversion failed: '' @ m) ''image''), files')
         | None \<Rightarrow>
             if \<not> existsSync files' outputPath then
               (Inl (ConversionError ''PDF output not created by ImageMagick'' ''image''), files')
             else (Inr outputPath, files')))"

definition tryMagickV7 :: "platform \<Rightarrow> string list \<Rightarrow> string \<Rightarrow> fs \<Rightarrow> (agent_error + string) \<times> fs" where
  "tryMagickV7 pf args outputPath files =
     (if \<not> which_found pf ''magick'' then tryMagickV6 pf args outputPath files
      else
        (let (r, files') = exec_file pf ''magick'' args files in
         case exec_error r of
           Some m \<Rightarrow> tryMagickV6 pf args outputPath files'
         | None \<Rightarrow>
             if \<not> existsSync files' outputPath then tryMagickV6 pf args outputPath files'
             else (Inr outputPath, files')))"

definition convertImageToPDF :: "platform \<Rightarrow> string \<Rightarrow> fs \<Rightarrow> (agent_error + string) \<times> fs" where
  "convertImageToPDF pf inputPath files =
     (if \<not> existsSync files inputPath then
        (Inl (ConversionError ''Input image does not exist'' ''image''), files)
      else
        (let ext = toLowerCase (extname inputPath) in
         if ext \<notin> set [''.png'', ''.jpg'', ''.jpeg''] then
           (Inl (ConversionError (''Unsupported image format: '' @ ext) ''image''), files)
         else
           (let outputPath = replace_first inputPath ext ''.pdf'' in
            tryMagickV7 pf (magick_args inputPath outputPath) outputPath files)))"

text \<open>
  \<open>verifyPDF\<close>: reading the file, loading it with pdf-lib and counting its pages all
  happen inside the \<open>try\<close>; whatever they throw is rethrown as a \<open>ConversionError\<close>.
  A page count that differs from the expected one is only logged.
\<close>

definition verifyPDF :: "platform \<Rightarrow> string \<Rightarrow> nat option \<Rightarrow> fs \<Rightarrow> agent_error + nat" where
  "verifyPDF pf pdfPath expectedPages files =
     (case readFileSync files pdfPath of
        Inl m \<Rightarrow> Inl (ConversionError (''PDF verification failed: '' @ m) ''pdf'')
      | Inr pdfBytes \<Rightarrow>
          (case pdf_load pf pdfBytes of
             Inl m \<Rightarrow> Inl (ConversionError (''PDF verification failed: '' @ m) ''pdf'')
           | Inr actualPages \<Rightarrow> Inr actualPages))"



section \<open>Printer detection, status and printing (printer.js)\<close>

text \<open>
  The regular expression \<open>/printer\s+(\S+)/\<close>: the leftmost place where \<open>printer\<close>,
  at least one white-space character and at least one other character follow each other;
  the group is the longest run of non-space characters there.
\<close>

definition match_printer_at :: "string \<Rightarrow> string option" where
  "match_printer_at s =
     (if prefix ''printer'' s then
        (let r = drop 7 s;
             tok = takeWhile (\<lambda>c. \<not> is_space c) (dropWhile is_space r)
         in if takeWhile is_space r \<noteq> [] \<and> tok \<noteq> [] then Some tok else None)
      else None)"

fun match_printer :: "string \<Rightarrow> string option" where
  "match_printer [] = None"
| "match_printer (c # cs) =
     (case match_printer_at (c # cs) of
        Some tok \<Rightarrow> Some tok
      | None \<Rightarrow> match_printer cs)"

text \<open>
  One round of the \<open>forEach\<close> over the lines of \<open>lpstat -p -d\<close>; the pair is
  \<open>(defaultPrinter, availablePrinters)\<close>. A line that starts with the default prefix
  has a colon, so \<open>split(':')[1]\<close> is always there.
\<close>

definition scan_line :: "string option \<times> string list \<Rightarrow> string \<Rightarrow> string option \<times> string list" where
  "scan_line acc line =
     (let (defaultPrinter, availablePrinters) = acc in
      if prefix ''system default destination:'' line then
        (Some (trim (split_on CHR '':'' line ! 1)), availablePrinters)
      else if prefix ''printer '' line then
        (case match_printer line of
           Some m \<Rightarrow> (defaultPrinter, availablePrinters @ [m])
         | None \<Rightarrow> (defaultPrinter, availablePrinters))
      else (defaultPrinter, availablePrinters))"

definition detectPrinter :: "platform \<Rightarrow> string \<Rightarrow> fs \<Rightarrow> agent_error + string" where
  "detectPrinter pf printerName files =
     (if printerName \<noteq> ''auto'' then Inr printerName
      else
        (let r = fst (exec_shell pf ''lpstat -p -d'' files) in
         if exec_error r \<noteq> None then Inl (PrinterError ''No printers available'' None)
         else
           (let lines = split_on CHR 0x0A (exec_stdout r);
                (defaultPrinter, availablePrinters) = foldl scan_line (None, []) lines
            in if truthy defaultPrinter then Inr (the defaultPrinter)
               else if length availablePrinters > 0 then Inr (availablePrinters ! 0)
               else Inl (PrinterError ''No printers found'' None))))"

record printer_status =
  status :: string
  detail :: "string option"

text \<open>
  \<open>checkPrinterStatus\<close>: the outcome of the promise, \<open>Inl\<close> when it is rejected and
  \<open>Inr\<close> when it is resolved.
\<close>

definition checkPrinterStatus :: "platform \<Rightarrow> string option \<Rightarrow> fs \<Rightarrow> agent_error + printer_status" where
  "checkPrinterStatus pf printerName files =
     (if \<not> truthy printerName then
        Inr \<lparr>status = ''unknown'', detail = Some ''no_printer_configured''\<rparr>
      else
        (let r = fst (exec_shell pf (''lpstat -p '' @ interpolate printerName @ '' 2>&1'') files) in
         if exec_error r \<noteq> None \<and> exec_stdout r = [] then
           Inr \<lparr>status = ''unknown'', detail = Some ''cups_unavailable''\<rparr>
         else
           (let output = toLowerCase (exec_stdout r) in
            if str_includes output ''out of paper'' \<or> str_includes output ''media empty''
               \<or> str_includes output ''no media'' then
              Inr \<lparr>status = ''error'', detail = Some ''media-empty''\<rparr>
            else if str_includes output ''out of ink'' \<or> str_includes output ''toner empty''
               \<or> str_includes output ''ink empty'' then
              Inr \<lparr>status = ''error'', detail = Some ''toner-empty''\<rparr>
            else if str_includes output ''cover open'' \<or> str_includes output ''door open'' then
              Inr \<lparr>status = ''error'', detail = Some ''cover-open''\<rparr>
            else if str_includes output ''stopped'' \<and> \<not> str_includes output ''idle'' then
              Inr \<lparr>status = ''error'', detail = Some ''stopped''\<rparr>
            else if str_includes output ''not connected'' \<or> str_includes output ''offline'' then
              Inr \<lparr>status = ''error'', detail = Some ''offline''\<rparr>
            else if str_includes output ''idle'' \<or> str_includes output ''processing'' then
              Inr \<lparr>status = ''healthy'', detail = None\<rparr>
            else Inr \<lparr>status = ''unknown'', detail = Some ''ipp_unsupported''\<rparr>)))"

definition printDocument ::
  "platform \<Rightarrow> string option \<Rightarrow> string \<Rightarrow> nat option \<Rightarrow> fs \<Rightarrow> (agent_error + nat option) \<times> fs" where
  "printDocument pf printerName filePath pages files =
     (let cmd = ''lp -d '' @ interpolate printerName @ '' '' @ quoted filePath;
          (r, files') = exec_shell pf cmd files
      in case exec_error r of
           Some m \<Rightarrow>
             (Inl (PrinterError
                (''Print command failed: '' @ (if exec_stderr r \<noteq> [] then exec_stderr r else m))
                printerName), files')
         | None \<Rightarrow> (Inr pages, files'))"

section \<open>The job handler (job-handler.js)\<close>

record job =
  job_id :: string
  filename :: string
  pages :: "nat option"
  file_data :: "string option"

datatype event =
    JobReceived string
  | PrintStarted string
  | PrintComplete string bool "nat option" "string option"

text \<open>A pending \<open>setTimeout\<close>: the delay left, and the two paths its callback closes over.\<close>

datatype timer = Cleanup nat string string

text \<open>
  The shared \<open>STATE\<close> object (the first six fields) together with what the handler
  changes outside it: the file system, the events emitted on the socket, the pending
  timers, and how often \<open>socket.connected\<close> has been read. \<open>pendingJobs\<close> is a
  \<open>Map\<close>: its entries in insertion order, every key once.
\<close>

record world =
  currentJob :: "string option"
  printerName :: "string option"
  pendingJobs :: "(string \<times> job) list"
  pollCount :: nat
  jobsFetchedToday :: nat
  conversionsToday :: nat
  files :: fs
  emitted :: "event list"
  timers :: "timer list"
  socket_reads :: nat

text \<open>\<open>Map.prototype.get\<close>, \<open>set\<close> and \<open>delete\<close>: \<open>set\<close> on a key that is there
  changes the value where it stands, a new key goes to the end.\<close>

fun pending_get :: "(string \<times> job) list \<Rightarrow> string \<Rightarrow> job option" where
  "pending_get [] k = None"
| "pending_get ((k', v) # m) k = (if k' = k then Some v else pending_get m k)"

fun pending_set :: "string \<Rightarrow> job \<Rightarrow> (string \<times> job) list \<Rightarrow> (string \<times> job) list" where
  "pending_set k v [] = [(k, v)]"
| "pending_set k v ((k', v') # m) = (if k' = k then (k, v) # m else (k', v') # pending_set k v m)"

fun pending_delete :: "string \<Rightarrow> (string \<times> job) list \<Rightarrow> (string \<times> job) list" where
  "pending_delete k [] = []"
| "pending_delete k ((k', v') # m) = (if k' = k then m else (k', v') # pending_delete k m)"

text \<open>\<open>if (socket.connected) socket.emit(...)\<close>\<close>

definition emit_if_connected :: "platform \<Rightarrow> event \<Rightarrow> world \<Rightarrow> world" where
  "emit_if_connected pf ev w =
     (let w' = w\<lparr>socket_reads := Suc (socket_reads w)\<rparr> in
      if connected_at pf (socket_reads w) then w'\<lparr>emitted := emitted w @ [ev]\<rparr> else w')"

definition tempDir :: string where
  "tempDir = ''./print-queue''"

definition file_type_name :: "file_type \<Rightarrow> string" where
  "file_type_name t =
     (case t of Pdf \<Rightarrow> ''pdf'' | Document \<Rightarrow> ''document'' | Image \<Rightarrow> ''image'' | Unknown \<Rightarrow> ''unknown'')"

text \<open>
  The chain of \<open>if\<close>s on the file type inside \<open>processJob\<close>: the outcome is the
  thrown error or \<open>finalPdfPath\<close>.
\<close>

definition processJob_convert ::
  "platform \<Rightarrow> string \<Rightarrow> job \<Rightarrow> string \<Rightarrow> file_type \<Rightarrow> world \<Rightarrow> (agent_error + string) \<times> world" where
  "processJob_convert pf jobId jb originalPath fileType w =
     (if fileType = Document then
        (let w' = w\<lparr>conversionsToday := conversionsToday w + 1\<rparr>;
             (r, files') = convertDocumentToPDF pf originalPath (files w')
         in (r, w'\<lparr>files := files'\<rparr>))
      else if fileType = Image then
        (let w' = w\<lparr>conversionsToday := conversionsToday w + 1\<rparr>;
             (r, files') = convertImageToPDF pf originalPath (files w')
         in (r, w'\<lparr>files := files'\<rparr>))
      else if fileType = Pdf then
        (case verifyPDF pf originalPath (pages jb) (files w) of
           Inl e \<Rightarrow> (Inl e, w)
         | Inr actualPages \<Rightarrow> (Inr originalPath, w))
      else (Inl (JobError (''Unsupported file type: '' @ file_type_name fileType) jobId), w))"

text \<open>
  The \<open>try\<close> block of \<open>processJob\<close>: \<open>Inl e\<close> when \<open>e\<close> is thrown inside it, with
  the world as it is at the throw.
\<close>

definition processJob_try :: "platform \<Rightarrow> string \<Rightarrow> job \<Rightarrow> world \<Rightarrow> (agent_error + unit) \<times> world" where
  "processJob_try pf jobId jb w =
     (case base64_decode pf (file_data jb) of
        Inl m \<Rightarrow> (Inl (SystemError m), w)
      | Inr fileBuffer \<Rightarrow>
          (let originalPath = path_join pf tempDir (jobId @ ''_'' @ filename jb) in
           case writeFileSync pf originalPath fileBuffer (files w) of
             Inl m \<Rightarrow> (Inl (SystemError m), w)
           | Inr files1 \<Rightarrow>
               (let w1 = emit_if_connected pf (JobReceived jobId) (w\<lparr>files := files1\<rparr>);
                    fileType = getFileType (filename jb)
                in case processJob_convert pf jobId jb originalPath fileType w1 of
                     (Inl e, w2) \<Rightarrow> (Inl e, w2)
                   | (Inr finalPdfPath, w2) \<Rightarrow>
                       (let w3 = emit_if_connected pf (PrintStarted jobId) w2;
                            (pr, files4) =
                               printDocument pf (printerName w3) finalPdfPath (pages jb) (files w3);
                            w4 = w3\<lparr>files := files4\<rparr>
                        in case pr of
                             Inl e \<Rightarrow> (Inl e, w4)
                           | Inr pages_printed \<Rightarrow>
                               (let w5 = emit_if_connected pf
                                           (PrintComplete jobId True pages_printed None) w4
                                in (Inr (),
                                    w5\<lparr>timers := timers w5 @ [Cleanup 5000 finalPdfPath originalPath]\<rparr>))))))"

text \<open>The \<open>try\<close> block followed by the \<open>catch\<close> block.\<close>

definition processJob_settle :: "platform \<Rightarrow> string \<Rightarrow> job \<Rightarrow> world \<Rightarrow> world" where
  "processJob_settle pf jobId jb w =
     (case processJob_try pf jobId jb w of
        (Inl e, w') \<Rightarrow> emit_if_connected pf (PrintComplete jobId False None (Some (error_message e))) w'
      | (Inr u, w') \<Rightarrow> w')"

text \<open>The first two statements of the \<open>finally\<close> block.\<close>

definition processJob_finally :: "string \<Rightarrow> world \<Rightarrow> world" where
  "processJob_finally jobId w =
     w\<lparr>currentJob := None, pendingJobs := pending_delete jobId (pendingJobs w)\<rparr>"

text \<open>
  \<open>processJob\<close> awaited to its end, with nothing else running in between: the job, and
  from its \<open>finally\<close> block the job that is then first in the map, and so on.
\<close>

function processJob :: "platform \<Rightarrow> string \<Rightarrow> world \<Rightarrow> world" where
  "processJob pf jobId w =
     (case pending_get (pendingJobs w) jobId of
        None \<Rightarrow> w
      | Some jb \<Rightarrow>
          (let w1 = processJob_finally jobId
                      (processJob_settle pf jobId jb (w\<lparr>currentJob := Some jobId\<rparr>))
           in if length (pendingJobs w1) > 0
              then processJob pf (fst (hd (pendingJobs w1))) w1
              else w1))"
  by pat_completeness auto

text \<open>The map of pending jobs is untouched inside the \<open>try\<close> and \<open>catch\<close> blocks, so
  each round of \<open>processJob\<close> leaves one job less.\<close>

lemma emit_pending: "pendingJobs (emit_if_connected pf ev w) = pendingJobs w"
  by (simp add: emit_if_connected_def Let_def)

lemma convert_pending:
  "pendingJobs (snd (processJob_convert pf jobId jb p t w)) = pendingJobs w"
  by (simp add: processJob_convert_def Let_def split: prod.splits sum.splits)

lemma try_pending: "pendingJobs (snd (processJob_try pf jobId jb w)) = pendingJobs w"
  apply (simp add: processJob_try_def Let_def emit_pending split: prod.splits sum.splits)
  apply (auto simp: emit_pending convert_pending
              dest: arg_cong [where f = "\<lambda>x. pendingJobs (snd x)"])
  done

lemma settle_pending: "pendingJobs (processJob_settle pf jobId jb w) = pendingJobs w"
  using try_pending [of pf jobId jb w]
  by (auto simp: processJob_settle_def emit_pending split: prod.splits sum.splits)

lemma pending_delete_shorter:
  "pending_get m k = Some v \<Longrightarrow> length (pending_delete k m) < length m"
  by (induction m) (auto split: if_splits)

termination processJob
  by (relation "measure (\<lambda>(pf, jobId, w). length (pendingJobs w))")
     (auto simp: processJob_finally_def settle_pending pending_delete_shorter)

declare processJob.simps [simp del]

text \<open>
  The callback of the cleanup timer. An error thrown by \<open>unlinkSync\<close> is caught: what
  was deleted before it stays deleted, nothing after it is.
\<close>

definition cleanup_callback :: "platform \<Rightarrow> string \<Rightarrow> string \<Rightarrow> fs \<Rightarrow> fs" where
  "cleanup_callback pf finalPdfPath originalPath fls =
     (case (if existsSync fls finalPdfPath then unlinkSync pf finalPdfPath fls else Inr fls) of
        Inl m \<Rightarrow> fls
      | Inr files1 \<Rightarrow>
          (if originalPath \<noteq> finalPdfPath \<and> existsSync files1 originalPath then
             (case unlinkSync pf originalPath files1 of
                Inl m \<Rightarrow> files1
              | Inr files2 \<Rightarrow> files2)
           else files1))"

text \<open>
  Time passing: after \<open>d\<close> milliseconds the timers whose delay has run out have fired,
  oldest first, and the others have \<open>d\<close> less to wait.
\<close>

fun timer_due :: "nat \<Rightarrow> timer \<Rightarrow> bool" where
  "timer_due d (Cleanup delay a b) = (delay \<le> d)"

fun timer_fire :: "platform \<Rightarrow> fs \<Rightarrow> timer \<Rightarrow> fs" where
  "timer_fire pf fls (Cleanup delay a b) = cleanup_callback pf a b fls"

fun timer_wait :: "nat \<Rightarrow> timer \<Rightarrow> timer" where
  "timer_wait d (Cleanup delay a b) = Cleanup (delay - d) a b"

definition elapse :: "platform \<Rightarrow> nat \<Rightarrow> world \<Rightarrow> world" where
  "elapse pf d w =
     w\<lparr>files := foldl (timer_fire pf) (files w) (filter (timer_due d) (timers w)),
       timers := map (timer_wait d) (filter (\<lambda>t. \<not> timer_due d t) (timers w))\<rparr>"

text \<open>
  \<open>pollForJobs\<close>. The outcome of the HTTP request is an argument: \<open>Inl\<close> when axios
  throws, otherwise the jobs of the response (none when the field is missing or empty).
\<close>

definition poll_deliver :: "job list \<Rightarrow> world \<Rightarrow> world" where
  "poll_deliver jobs w =
     w\<lparr>jobsFetchedToday := jobsFetchedToday w + length jobs,
       pendingJobs := foldl (\<lambda>m jb. pending_set (job_id jb) jb m) (pendingJobs w) jobs\<rparr>"

definition pollForJobs :: "platform \<Rightarrow> string + job list \<Rightarrow> world \<Rightarrow> world" where
  "pollForJobs pf response w =
     (let w0 = w\<lparr>socket_reads := Suc (socket_reads w)\<rparr> in
      if \<not> connected_at pf (socket_reads w) then w0
      else if truthy (currentJob w0) then w0
      else
        (let w1 = w0\<lparr>pollCount := pollCount w0 + 1\<rparr> in
         case response of
           Inl m \<Rightarrow> w1
         | Inr jobs \<Rightarrow>
             if length jobs > 0 then
               (let w2 = poll_deliver jobs w1 in
                if \<not> truthy (currentJob w2) \<and> length (pendingJobs w2) > 0
                then processJob pf (fst (hd (pendingJobs w2))) w2
                else w2)
             else w1))"

subsection \<open>The event loop\<close>

text \<open>
  The handler's functions are \<open>async\<close>: a call runs alone up to its next \<open>await\<close>, and
  there the poll timer or the continuation of another call may run. \<open>processJob\<close>
  waits twice inside its \<open>try\<close> block, for the conversion or verification and for the
  printer; up to the first of the two it runs in the turn of its caller.

  \<open>convertImageToPDF\<close> in two parts: the checks made when it is called, and the tools
  that run afterwards.
\<close>

definition image_rejected :: "fs \<Rightarrow> string \<Rightarrow> agent_error option" where
  "image_rejected fls inputPath =
     (if \<not> existsSync fls inputPath then
        Some (ConversionError ''Input image does not exist'' ''image'')
      else
        (let ext = toLowerCase (extname inputPath) in
         if ext \<notin> set [''.png'', ''.jpg'', ''.jpeg''] then
           Some (ConversionError (''Unsupported image format: '' @ ext) ''image'')
         else None))"

definition image_tools :: "platform \<Rightarrow> string \<Rightarrow> fs \<Rightarrow> (agent_error + string) \<times> fs" where
  "image_tools pf inputPath fls =
     (let ext = toLowerCase (extname inputPath);
          outputPath = replace_first inputPath ext ''.pdf''
      in tryMagickV7 pf (magick_args inputPath outputPath) outputPath fls)"

text \<open>
  What a call of \<open>processJob\<close> waits for. A conversion: of a document (LibreOffice has
  been started), of an image (with the rejection, if the checks made at the call found
  one), or the verification of a PDF (with its outcome: the file was read at the call).
  Or the printer: \<open>lp\<close> has been started for \<open>finalPdfPath\<close> with the printer name read
  at the call. Each with \<open>originalPath\<close>.
\<close>

datatype conversion = OfDocument | OfImage "agent_error option" | OfPdf "agent_error + nat"

datatype awaited = Conversion conversion string | Print "string option" string string

fun conversion_outcome ::
  "platform \<Rightarrow> conversion \<Rightarrow> string \<Rightarrow> fs \<Rightarrow> (agent_error + string) \<times> fs" where
  "conversion_outcome pf OfDocument originalPath fls =
     convertDocumentToPDF pf originalPath fls"
| "conversion_outcome pf (OfImage rejected) originalPath fls =
     (case rejected of
        Some e \<Rightarrow> (Inl e, fls)
      | None \<Rightarrow> image_tools pf originalPath fls)"
| "conversion_outcome pf (OfPdf verified) originalPath fls =
     (case verified of
        Inl e \<Rightarrow> (Inl e, fls)
      | Inr actualPages \<Rightarrow> (Inr originalPath, fls))"

text \<open>
  The \<open>try\<close> block of \<open>processJob\<close> up to its first \<open>await\<close>: \<open>Inl e\<close> when \<open>e\<close> is
  thrown before, otherwise what the call then waits for.
\<close>

definition processJob_first ::
  "platform \<Rightarrow> string \<Rightarrow> job \<Rightarrow> world \<Rightarrow> (agent_error + awaited) \<times> world" where
  "processJob_first pf jobId jb w =
     (case base64_decode pf (file_data jb) of
        Inl m \<Rightarrow> (Inl (SystemError m), w)
      | Inr fileBuffer \<Rightarrow>
          (let originalPath = path_join pf tempDir (jobId @ ''_'' @ filename jb) in
           case writeFileSync pf originalPath fileBuffer (files w) of
             Inl m \<Rightarrow> (Inl (SystemError m), w)
           | Inr files1 \<Rightarrow>
               (let w1 = emit_if_connected pf (JobReceived jobId) (w\<lparr>files := files1\<rparr>);
                    fileType = getFileType (filename jb)
                in if fileType = Document then
                     (Inr (Conversion OfDocument originalPath),
                      w1\<lparr>conversionsToday := conversionsToday w1 + 1\<rparr>)
                   else if fileType = Image then
                     (Inr (Conversion (OfImage (image_rejected (files w1) originalPath)) originalPath),
                      w1\<lparr>conversionsToday := conversionsToday w1 + 1\<rparr>)
                   else if fileType = Pdf then
                     (Inr (Conversion (OfPdf (verifyPDF pf originalPath (pages jb) (files w1)))
                             originalPath), w1)
                   else (Inl (JobError (''Unsupported file type: '' @ file_type_name fileType) jobId),
                         w1))))"

text \<open>The \<open>catch\<close> block.\<close>

definition processJob_catch :: "platform \<Rightarrow> string \<Rightarrow> agent_error \<Rightarrow> world \<Rightarrow> world" where
  "processJob_catch pf jobId e w =
     emit_if_connected pf (PrintComplete jobId False None (Some (error_message e))) w"

text \<open>
  The loop state adds to the world what the suspended calls hold: the calls of
  \<open>processJob\<close> that wait inside their \<open>try\<close> block (each with its job id, the job it
  read from the map, and what it waits for), and the number of polls waiting for their
  HTTP response.
\<close>

record loop =
  the_world :: world
  running :: "(string \<times> job \<times> awaited) list"
  in_flight :: nat

text \<open>The world when the agent starts.\<close>

definition world_init :: world where
  "world_init =
     \<lparr>currentJob = None, printerName = None, pendingJobs = [], pollCount = 0,
      jobsFetchedToday = 0, conversionsToday = 0, files = Map.empty, emitted = [],
      timers = [], socket_reads = 0\<rparr>"

definition loop_init :: loop where
  "loop_init = \<lparr>the_world = world_init, running = [], in_flight = 0\<rparr>"

text \<open>
  A call of \<open>processJob\<close>, run until it waits or returns. When the job fails before the
  first \<open>await\<close>, the \<open>catch\<close> and \<open>finally\<close> blocks run at once, and with them the
  call for the next job.
\<close>

function processJob_call :: "platform \<Rightarrow> string \<Rightarrow> loop \<Rightarrow> loop" where
  "processJob_call pf jobId c =
     (case pending_get (pendingJobs (the_world c)) jobId of
        None \<Rightarrow> c
      | Some jb \<Rightarrow>
          (case processJob_first pf jobId jb ((the_world c)\<lparr>currentJob := Some jobId\<rparr>) of
             (Inr a, w1) \<Rightarrow> c\<lparr>the_world := w1, running := running c @ [(jobId, jb, a)]\<rparr>
           | (Inl e, w1) \<Rightarrow>
               (let w2 = processJob_finally jobId (processJob_catch pf jobId e w1);
                    c2 = c\<lparr>the_world := w2\<rparr>
                in if length (pendingJobs w2) > 0
                   then processJob_call pf (fst (hd (pendingJobs w2))) c2
                   else c2)))"
  by pat_completeness auto

lemma first_pending: "pendingJobs (snd (processJob_first pf jobId jb w)) = pendingJobs w"
  by (simp add: processJob_first_def Let_def emit_pending split: sum.splits)

lemma catch_pending: "pendingJobs (processJob_catch pf jobId e w) = pendingJobs w"
  by (simp add: processJob_catch_def emit_pending)

lemma first_pending_eq:
  "(r, w1) = processJob_first pf jobId jb w \<Longrightarrow> pendingJobs w1 = pendingJobs w"
  using first_pending [of pf jobId jb w] by (cases "processJob_first pf jobId jb w") simp

termination processJob_call
  by (relation "measure (\<lambda>(pf, jobId, c). length (pendingJobs (the_world c)))")
     (auto simp: processJob_finally_def catch_pending pending_delete_shorter
           dest!: first_pending_eq)

declare processJob_call.simps [simp del]

text \<open>
  The end of a call that has waited: the \<open>finally\<close> block, entered with the world as the
  \<open>try\<close> and \<open>catch\<close> blocks leave it.
\<close>

definition processJob_leave :: "platform \<Rightarrow> string \<Rightarrow> world \<Rightarrow> loop \<Rightarrow> loop" where
  "processJob_leave pf jobId w c =
     (let w2 = processJob_finally jobId w;
          c2 = c\<lparr>the_world := w2\<rparr>
      in if length (pendingJobs w2) > 0
         then processJob_call pf (fst (hd (pendingJobs w2))) c2
         else c2)"

text \<open>The first call for a job that waits for its conversion, or for the printer.\<close>

fun waits_conversion ::
  "string \<Rightarrow> (string \<times> job \<times> awaited) list \<Rightarrow> (job \<times> conversion \<times> string) option" where
  "waits_conversion jobId [] = None"
| "waits_conversion jobId ((j, jb, Conversion cv originalPath) # rs) =
     (if j = jobId then Some (jb, cv, originalPath) else waits_conversion jobId rs)"
| "waits_conversion jobId ((j, jb, Print pname finalPdfPath originalPath) # rs) =
     waits_conversion jobId rs"

fun waits_print ::
  "string \<Rightarrow> (string \<times> job \<times> awaited) list \<Rightarrow> (job \<times> string option \<times> string \<times> string) option" where
  "waits_print jobId [] = None"
| "waits_print jobId ((j, jb, Print pname finalPdfPath originalPath) # rs) =
     (if j = jobId then Some (jb, pname, finalPdfPath, originalPath) else waits_print jobId rs)"
| "waits_print jobId ((j, jb, Conversion cv originalPath) # rs) = waits_print jobId rs"

fun replace1 :: "'a \<Rightarrow> 'a \<Rightarrow> 'a list \<Rightarrow> 'a list" where
  "replace1 x y [] = []"
| "replace1 x y (z # zs) = (if z = x then y # zs else z # replace1 x y zs)"

text \<open>
  One turn of the loop. \<open>Tick\<close>: the poll timer fires and \<open>pollForJobs\<close> runs to its
  \<open>await\<close>. \<open>Response r\<close>: a waiting poll gets its answer and runs on, with the call of
  \<open>processJob\<close> it may make. \<open>Converted j\<close>: the conversion or verification a call for
  \<open>j\<close> waits for is over, with the file system as the tools leave it; the call runs on
  to the printer, or to its end when the conversion has failed. \<open>Printed j\<close>: \<open>lp\<close> has
  returned to a call for \<open>j\<close>, which runs to its end. \<open>Elapse d\<close>: \<open>d\<close> milliseconds
  pass and the cleanup timers due fire. An event that has nothing to act on leaves the
  state as it is.
\<close>

datatype loop_event =
  Tick | Response "string + job list" | Converted string | Printed string | Elapse nat

fun step :: "platform \<Rightarrow> loop_event \<Rightarrow> loop \<Rightarrow> loop" where
  "step pf Tick c =
     (let w = the_world c;
          w0 = w\<lparr>socket_reads := Suc (socket_reads w)\<rparr>
      in if \<not> connected_at pf (socket_reads w) then c\<lparr>the_world := w0\<rparr>
         else if truthy (currentJob w0) then c\<lparr>the_world := w0\<rparr>
         else c\<lparr>the_world := w0\<lparr>pollCount := pollCount w0 + 1\<rparr>, in_flight := Suc (in_flight c)\<rparr>)"
| "step pf (Response r) c =
     (if in_flight c = 0 then c
      else
        (let c0 = c\<lparr>in_flight := in_flight c - 1\<rparr> in
         case r of
           Inl m \<Rightarrow> c0
         | Inr jobs \<Rightarrow>
             if length jobs > 0 then
               (let w2 = poll_deliver jobs (the_world c0);
                    c2 = c0\<lparr>the_world := w2\<rparr>
                in if \<not> truthy (currentJob w2) \<and> length (pendingJobs w2) > 0
                   then processJob_call pf (fst (hd (pendingJobs w2))) c2
                   else c2)
             else c0))"
| "step pf (Converted jobId) c =
     (case waits_conversion jobId (running c) of
        None \<Rightarrow> c
      | Some (jb, cv, originalPath) \<Rightarrow>
          (let w = the_world c;
               (r, files2) = conversion_outcome pf cv originalPath (files w);
               w2 = w\<lparr>files := files2\<rparr>
           in case r of
                Inl e \<Rightarrow>
                  processJob_leave pf jobId (processJob_catch pf jobId e w2)
                    (c\<lparr>running := remove1 (jobId, jb, Conversion cv originalPath) (running c)\<rparr>)
              | Inr finalPdfPath \<Rightarrow>
                  (let w3 = emit_if_connected pf (PrintStarted jobId) w2
                   in c\<lparr>the_world := w3,
                        running := replace1 (jobId, jb, Conversion cv originalPath)
                                     (jobId, jb, Print (printerName w3) finalPdfPath originalPath)
                                     (running c)\<rparr>)))"
| "step pf (Printed jobId) c =
     (case waits_print jobId (running c) of
        None \<Rightarrow> c
      | Some (jb, pname, finalPdfPath, originalPath) \<Rightarrow>
          (let w = the_world c;
               (pr, files4) = printDocument pf pname finalPdfPath (pages jb) (files w);
               w4 = w\<lparr>files := files4\<rparr>;
               c4 = c\<lparr>running := remove1 (jobId, jb, Print pname finalPdfPath originalPath)
                                     (running c)\<rparr>
           in case pr of
                Inl e \<Rightarrow> processJob_leave pf jobId (processJob_catch pf jobId e w4) c4
              | Inr pages_printed \<Rightarrow>
                  (let w5 = emit_if_connected pf (PrintComplete jobId True pages_printed None) w4
                   in processJob_leave pf jobId
                        (w5\<lparr>timers := timers w5 @ [Cleanup 5000 finalPdfPath originalPath]\<rparr>) c4)))"
| "step pf (Elapse d) c = c\<lparr>the_world := elapse pf d (the_world c)\<rparr>"

definition run :: "platform \<Rightarrow> loop_event list \<Rightarrow> loop \<Rightarrow> loop" where
  "run pf evs c = foldl (\<lambda>c ev. step pf ev c) c evs"

section \<open>The tiers of the image conversion\<close>

text \<open>
  The specification speaks of candidate backends tried in turn. A tier succeeds when its
  tool is found, runs without error and leaves the output file; \<open>tier_files\<close> is the
  file system after the tier was tried.
\<close>

definition tier_ok :: "platform \<Rightarrow> string \<Rightarrow> string list \<Rightarrow> string \<Rightarrow> fs \<Rightarrow> bool" where
  "tier_ok pf tool args outputPath fls =
     (which_found pf tool \<and> exec_error (fst (exec_file pf tool args fls)) = None \<and>
      existsSync (snd (exec_file pf tool args fls)) outputPath)"

definition tier_files :: "platform \<Rightarrow> string \<Rightarrow> string list \<Rightarrow> fs \<Rightarrow> fs" where
  "tier_files pf tool args fls =
     (if which_found pf tool then snd (exec_file pf tool args fls) else fls)"

definition image_exts :: "string list" where
  "image_exts = [''.png'', ''.jpg'', ''.jpeg'']"

section \<open>The printer listing as the specification words it\<close>

text \<open>What \<open>lpstat -p -d\<close> hands to the callback.\<close>

definition lpstat_pd :: "platform \<Rightarrow> fs \<Rightarrow> exec_result" where
  "lpstat_pd pf fls = fst (exec_shell pf ''lpstat -p -d'' fls)"

text \<open>
  The names the listing gives: the destination each default line names, which is what
  follows \<open>system default destination:\<close> without the white space around it, and the
  printers of its printer lines, in the order of the lines.
\<close>

definition default_names :: "string list \<Rightarrow> string list" where
  "default_names lines =
     map (\<lambda>l. trim (drop (length ''system default destination:'') l))
       (filter (prefix ''system default destination:'') lines)"

definition printer_names :: "string list \<Rightarrow> string list" where
  "printer_names lines =
     List.map_filter match_printer
       (filter (\<lambda>l. \<not> prefix ''system default destination:'' l \<and> prefix ''printer '' l) lines)"

text \<open>
  The resolution as the specification words it: the default destination if there is one,
  otherwise the first printer listed, otherwise the error that there is no printer.
\<close>

definition resolve_auto :: "string list \<Rightarrow> agent_error + string" where
  "resolve_auto lines =
     (if default_names lines \<noteq> [] \<and> last (default_names lines) \<noteq> []
      then Inr (last (default_names lines))
      else if printer_names lines \<noteq> [] then Inr (hd (printer_names lines))
      else Inl (PrinterError ''No printers found'' None))"

text \<open>
  What the \<open>forEach\<close> of \<open>detectPrinter\<close> takes from the default lines instead: of
  each line the second of the fields that its colons separate. The two are the same when
  no destination has a colon in its name, which \<open>plain_defaults\<close> says.
\<close>

definition second_fields :: "string list \<Rightarrow> string list" where
  "second_fields lines =
     map (\<lambda>l. trim (split_on CHR '':'' l ! 1))
       (filter (prefix ''system default destination:'') lines)"

definition plain_defaults :: "string list \<Rightarrow> bool" where
  "plain_defaults lines =
     (\<forall>l \<in> set lines. prefix ''system default destination:'' l \<longrightarrow>
        CHR '':'' \<notin> set (drop (length ''system default destination:'') l))"

text \<open>
  The two kinds of line \<open>lpstat\<close> prints, for a name without white space.
\<close>

definition name_ok :: "string \<Rightarrow> bool" where
  "name_ok n = (n \<noteq> [] \<and> (\<forall>c \<in> set n. \<not> is_space c))"

definition default_line :: "string \<Rightarrow> string" where
  "default_line n = ''system default destination: '' @ n"

definition printer_line :: "string \<Rightarrow> string \<Rightarrow> string" where
  "printer_line n rest = ''printer '' @ n @ '' '' @ rest"

section \<open>The health rules as the specification words them\<close>

text \<open>
  The specification describes the health check as an ordered list of rules, each a
  substring pattern with its classification, tried from the top; the fault rules come
  first, the healthy phrases after them, and a text that matches nothing is
  \<open>unknown/ipp_unsupported\<close>. \<open>classify_text\<close> is that description; it is compared
  with \<open>checkPrinterStatus\<close> below.
\<close>

definition fault_rules :: "((string \<Rightarrow> bool) \<times> string) list" where
  "fault_rules =
     [(\<lambda>t. str_includes t ''out of paper'' \<or> str_includes t ''media empty''
            \<or> str_includes t ''no media'', ''media-empty''),
      (\<lambda>t. str_includes t ''out of ink'' \<or> str_includes t ''toner empty''
            \<or> str_includes t ''ink empty'', ''toner-empty''),
      (\<lambda>t. str_includes t ''cover open'' \<or> str_includes t ''door open'', ''cover-open''),
      (\<lambda>t. str_includes t ''stopped'' \<and> \<not> str_includes t ''idle'', ''stopped''),
      (\<lambda>t. str_includes t ''not connected'' \<or> str_includes t ''offline'', ''offline'')]"

definition healthy_text :: "string \<Rightarrow> bool" where
  "healthy_text t = (str_includes t ''idle'' \<or> str_includes t ''processing'')"

definition classify_text :: "string \<Rightarrow> printer_status" where
  "classify_text t =
     (case find (\<lambda>rule. fst rule t) fault_rules of
        Some rule \<Rightarrow> \<lparr>status = ''error'', detail = Some (snd rule)\<rparr>
      | None \<Rightarrow>
          if healthy_text t then \<lparr>status = ''healthy'', detail = None\<rparr>
          else \<lparr>status = ''unknown'', detail = Some ''ipp_unsupported''\<rparr>)"

text \<open>What \<open>lpstat -p <printer> 2>&1\<close> hands to the callback.\<close>

definition lpstat_p :: "platform \<Rightarrow> string option \<Rightarrow> fs \<Rightarrow> exec_result" where
  "lpstat_p pf pname fls =
     fst (exec_shell pf (''lpstat -p '' @ interpolate pname @ '' 2>&1'') fls)"

section \<open>A concrete platform\<close>

text \<open>
  A platform to run the functions on: CUPS answers with two printers and a default
  destination, the status text of the printer says idle and out of paper, \<open>lp\<close>
  accepts every file, only \<open>convert\<close> of ImageMagick is installed and writes its last
  argument, LibreOffice is missing, a PDF is what starts with \<open>%PDF\<close> and has three
  pages, and the socket is connected. The path functions are right for the names used
  here (no dots or slashes inside a segment).
\<close>

definition ok_result :: "string \<Rightarrow> exec_result" where
  "ok_result out = \<lparr>exec_error = None, exec_stdout = out, exec_stderr = []\<rparr>"

definition failed_result :: "string \<Rightarrow> exec_result" where
  "failed_result m = \<lparr>exec_error = Some m, exec_stdout = [], exec_stderr = []\<rparr>"

definition demo_listing :: string where
  "demo_listing =
     ''printer Canon_MG3600 is idle.  enabled since Mon 03 Nov 2025'' @ [CHR 0x0A] @
     ''printer HP_LaserJet is idle.  enabled since Mon 03 Nov 2025'' @ [CHR 0x0A] @
     ''system default destination: HP_LaserJet'' @ [CHR 0x0A]"

text \<open>A listing whose default destination has a colon in its name.\<close>

definition colon_listing :: string where
  "colon_listing =
     ''printer Office:1 is idle.  enabled since Mon 03 Nov 2025'' @ [CHR 0x0A] @
     ''system default destination: Office:1'' @ [CHR 0x0A]"

definition demo_status_text :: string where
  "demo_status_text =
     ''printer HP_LaserJet is idle.  enabled since Mon 03 Nov 2025'' @ [CHR 0x0A] @
     ''        Out of paper'' @ [CHR 0x0A]"

definition demo_platform :: platform where
  "demo_platform =
     \<lparr>path_join = (\<lambda>d f. (if take 2 d = ''./'' then drop 2 d else d) @ ''/'' @ f),
      path_dirname = (\<lambda>p. rev (drop 1 (dropWhile (\<lambda>c. c \<noteq> CHR ''/'') (rev p)))),
      path_basename = (\<lambda>p e.
         let b = rev (takeWhile (\<lambda>c. c \<noteq> CHR ''/'') (rev p))
         in if suffix e b then take (length b - length e) b else b),
      exec_shell = (\<lambda>cmd fls.
         if cmd = ''lpstat -p -d'' then (ok_result demo_listing, fls)
         else if prefix ''lpstat -p '' cmd then (ok_result demo_status_text, fls)
         else if prefix ''lp -d '' cmd then (ok_result ''request id is HP_LaserJet-42 (1 file(s))'', fls)
         else (failed_result ''Command failed: libreoffice: not found'', fls)),
      exec_file = (\<lambda>tool args fls. (ok_result [], fls(last args \<mapsto> ''%PDF-1.4 image''))),
      which_found = (\<lambda>tool. tool = ''convert''),
      base64_decode = (\<lambda>d. case d of
           None \<Rightarrow> Inl ''The first argument must be of type string or an instance of Buffer''
         | Some bytes \<Rightarrow> Inr bytes),
      pdf_load = (\<lambda>bytes. if prefix ''%PDF'' bytes then Inr 3 else Inl ''No PDF header found''),
      write_error = (\<lambda>p. None),
      unlink_error = (\<lambda>p. None),
      connected_at = (\<lambda>n. True)\<rparr>"

definition colon_platform :: platform where
  "colon_platform = demo_platform\<lparr>exec_shell := \<lambda>cmd fls. (ok_result colon_listing, fls)\<rparr>"

text \<open>Jobs to run on the concrete platform, and a world with jobs waiting.\<close>

definition report_job :: job where
  "report_job = \<lparr>job_id = ''j1'', filename = ''report.pdf'', pages = Some 3,
                  file_data = Some ''%PDF-1.4 three pages''\<rparr>"

definition gif_job :: job where
  "gif_job = \<lparr>job_id = ''j3'', filename = ''photo.gif'', pages = None,
               file_data = Some ''GIF89a''\<rparr>"

definition corrupt_job :: job where
  "corrupt_job = \<lparr>job_id = ''j6'', filename = ''broken.pdf'', pages = Some 3,
                   file_data = Some ''garbage''\<rparr>"

definition queued :: "job list \<Rightarrow> world" where
  "queued jobs = world_init\<lparr>pendingJobs := map (\<lambda>jb. (job_id jb, jb)) jobs\<rparr>"

text \<open>
  A platform where LibreOffice is installed as well: it writes the PDF next to the
  document it is given, which is the last argument of the command.
\<close>

definition office_platform :: platform where
  "office_platform =
     demo_platform\<lparr>exec_shell := (\<lambda>cmd fls.
        if prefix ''libreoffice '' cmd then
          (let input = rev (takeWhile (\<lambda>c. c \<noteq> CHR 0x22) (drop 1 (rev cmd)));
               output = rev (drop 1 (dropWhile (\<lambda>c. c \<noteq> CHR ''.'') (rev input))) @ ''.pdf''
           in (ok_result (''convert '' @ input @ '' -> '' @ output @ '' using filter : writer_pdf_Export''),
               fls(output \<mapsto> ''%PDF-1.4 converted'')))
        else exec_shell demo_platform cmd fls)\<rparr>"

text \<open>
  A job whose id is the empty string, and the same job with an id. Two polls: the job is
  delivered, and while it is converted the poll timer fires again and the answer to that
  poll delivers another job.
\<close>

definition blank_job :: job where
  "blank_job = \<lparr>job_id = [], filename = ''notes.docx'', pages = Some 2,
                 file_data = Some ''PK notes''\<rparr>"

definition notes_job :: job where
  "notes_job = \<lparr>job_id = ''j4'', filename = ''notes.docx'', pages = Some 2,
                 file_data = Some ''PK notes''\<rparr>"

definition two_polls :: "job \<Rightarrow> loop_event list" where
  "two_polls jb = [Tick, Response (Inr [jb]), Tick, Response (Inr [corrupt_job])]"


section \<open>The invariant of the event loop\<close>

text \<open>
  The job ids waiting, oldest first. What holds between two turns of the loop when no job
  id is the empty string: the keys of the map are distinct and not empty, and either the
  map is empty, no call of \<open>processJob\<close> waits inside its \<open>try\<close> block and no job is
  current, or exactly one call waits there, for the oldest pending job, which is the
  current one. \<open>delivered_ids\<close> are the job ids an event brings in.
\<close>

definition pending_keys :: "world \<Rightarrow> string list" where
  "pending_keys w = map fst (pendingJobs w)"

definition loop_inv :: "loop \<Rightarrow> bool" where
  "loop_inv c =
     (distinct (pending_keys (the_world c)) \<and> [] \<notin> set (pending_keys (the_world c)) \<and>
      (running c = [] \<and> currentJob (the_world c) = None \<and> pending_keys (the_world c) = [] \<or>
       (\<exists>jb a. running c = [(hd (pending_keys (the_world c)), jb, a)] \<and>
               currentJob (the_world c) = Some (hd (pending_keys (the_world c))) \<and>
               pending_keys (the_world c) \<noteq> [])))"

fun delivered_ids :: "loop_event \<Rightarrow> string list" where
  "delivered_ids (Response (Inr jobs)) = map job_id jobs"
| "delivered_ids ev = []"

section \<open>Properties of the string and path functions\<close>

lemma of_char_lower_char:
  "(of_char (lower_char c) :: nat) =
     (if 65 \<le> (of_char c :: nat) \<and> (of_char c :: nat) \<le> 90 then of_char c + 32 else of_char c)"
  by (simp add: lower_char_def Let_def)

lemma lower_char_eq_iff:
  assumes "(of_char d :: nat) < 65 \<or> 122 < (of_char d :: nat)"
  shows "lower_char c = d \<longleftrightarrow> c = d"
proof
  assume h: "lower_char c = d"
  have "(of_char (lower_char c) :: nat) = of_char d" using h by simp
  then have "(of_char c :: nat) = of_char d"
    using assms by (simp add: of_char_lower_char split: if_splits)
  then show "c = d" by simp
next
  assume "c = d"
  then show "lower_char c = d" using assms by (auto simp: lower_char_def Let_def)
qed

lemma lower_char_dot [simp]: "lower_char c = CHR ''.'' \<longleftrightarrow> c = CHR ''.''"
  by (rule lower_char_eq_iff) simp

lemma lower_char_slash [simp]: "lower_char c = CHR ''/'' \<longleftrightarrow> c = CHR ''/''"
  by (rule lower_char_eq_iff) simp

lemma lower_char_idem [simp]: "lower_char (lower_char c) = lower_char c"
proof -
  have "(of_char (lower_char (lower_char c)) :: nat) = of_char (lower_char c)"
    by (simp add: of_char_lower_char)
  then show ?thesis by simp
qed

lemma ext_visit_map:
  assumes "\<And>c. f c = CHR ''.'' \<longleftrightarrow> c = CHR ''.''"
  shows "ext_visit (f c) i s = ext_visit c i s"
  using assms by (simp add: ext_visit_def)

lemma extname_loop_map:
  assumes dot: "\<And>c. f c = CHR ''.'' \<longleftrightarrow> c = CHR ''.''"
      and slash: "\<And>c. f c = CHR ''/'' \<longleftrightarrow> c = CHR ''/''"
  shows "i \<le> length p \<Longrightarrow> extname_loop (map f p) i s = extname_loop p i s"
proof (induction i arbitrary: s)
  case 0
  then show ?case by simp
next
  case (Suc i)
  then have lt: "i < length p" by simp
  then have nth: "map f p ! i = f (p ! i)" by simp
  from Suc have IH: "\<And>s. extname_loop (map f p) i s = extname_loop p i s" by simp
  show ?case
    by (simp add: nth slash IH ext_visit_map [of f, OF dot])
qed

lemma extname_map:
  assumes dot: "\<And>c. f c = CHR ''.'' \<longleftrightarrow> c = CHR ''.''"
      and slash: "\<And>c. f c = CHR ''/'' \<longleftrightarrow> c = CHR ''/''"
  shows "extname (map f p) = map f (extname p)"
  by (simp add: extname_def Let_def extname_loop_map [OF dot slash] take_map drop_map)

lemma ext_visit_startDot_nodot:
  "c \<noteq> CHR ''.'' \<Longrightarrow> startDot s = -1 \<Longrightarrow> startDot (ext_visit c i s) = -1"
  by (simp add: ext_visit_def Let_def)

lemma extname_loop_nodot:
  "i \<le> length p \<Longrightarrow> CHR ''.'' \<notin> set p \<Longrightarrow> startDot s = -1 \<Longrightarrow>
     startDot (extname_loop p i s) = -1"
proof (induction i arbitrary: s)
  case 0
  then show ?case by simp
next
  case (Suc i)
  then have "p ! i \<in> set p" by simp
  with Suc.prems have nd: "p ! i \<noteq> CHR ''.''" by metis
  show ?case
    using Suc nd by (simp add: ext_visit_startDot_nodot)
qed

lemma extname_nodot: "CHR ''.'' \<notin> set p \<Longrightarrow> extname p = []"
  using extname_loop_nodot [of "length p" p ext_init]
  by (simp add: extname_def Let_def ext_init_def)

lemma ext_visit_clean:
  "c \<noteq> CHR ''.'' \<Longrightarrow> startDot s = -1 \<Longrightarrow> endPos s \<noteq> -1 \<Longrightarrow> ext_visit c i s = s"
  by (simp add: ext_visit_def Let_def)

lemma extname_loop_clean:
  "k \<le> i \<Longrightarrow> i \<le> length p \<Longrightarrow>
   (\<forall>j. k \<le> j \<and> j < i \<longrightarrow> p ! j \<noteq> CHR ''.'' \<and> p ! j \<noteq> CHR ''/'') \<Longrightarrow>
   startDot s = -1 \<Longrightarrow> endPos s \<noteq> -1 \<Longrightarrow>
   extname_loop p i s = extname_loop p k s"
proof (induction i)
  case 0
  then show ?case by simp
next
  case (Suc i)
  show ?case
  proof (cases "k = Suc i")
    case True
    then show ?thesis by simp
  next
    case False
    with Suc.prems have ki: "k \<le> i" by simp
    with Suc.prems have cl: "p ! i \<noteq> CHR ''.''" "p ! i \<noteq> CHR ''/''" by auto
    have "extname_loop p (Suc i) s = extname_loop p i s"
      using cl Suc.prems by (simp add: ext_visit_clean)
    also have "\<dots> = extname_loop p k s"
      using Suc.IH ki Suc.prems by simp
    finally show ?thesis .
  qed
qed

lemma ext_visit_stable:
  "startDot s \<noteq> -1 \<Longrightarrow> endPos s \<noteq> -1 \<Longrightarrow> preDotState s \<noteq> 0 \<Longrightarrow>
   startDot (ext_visit c i s) = startDot s \<and> endPos (ext_visit c i s) = endPos s \<and>
   preDotState (ext_visit c i s) \<noteq> 0"
  by (simp add: ext_visit_def Let_def)

lemma extname_loop_stable:
  "startDot s \<noteq> -1 \<Longrightarrow> endPos s \<noteq> -1 \<Longrightarrow> preDotState s \<noteq> 0 \<Longrightarrow>
   startDot (extname_loop p i s) = startDot s \<and> endPos (extname_loop p i s) = endPos s \<and>
   preDotState (extname_loop p i s) \<noteq> 0"
proof (induction i arbitrary: s)
  case 0
  then show ?case by simp
next
  case (Suc i)
  note st = ext_visit_stable [OF Suc.prems, of "p ! i" i]
  have "startDot (extname_loop p i (ext_visit (p ! i) i s)) = startDot (ext_visit (p ! i) i s) \<and>
        endPos (extname_loop p i (ext_visit (p ! i) i s)) = endPos (ext_visit (p ! i) i s) \<and>
        preDotState (extname_loop p i (ext_visit (p ! i) i s)) \<noteq> 0"
    using st Suc.prems by (intro Suc.IH) simp_all
  then show ?case
    using st Suc.IH [OF Suc.prems] Suc.prems by simp
qed

lemma extname_stem_ext:
  assumes stem: "stem \<noteq> []" "last stem \<noteq> CHR ''/''"
      and e: "e \<noteq> []" "CHR ''.'' \<notin> set e" "CHR ''/'' \<notin> set e"
  shows "extname (stem @ CHR ''.'' # e) = CHR ''.'' # e"
proof -
  define p where "p = stem @ CHR ''.'' # e"
  define n where "n = length stem"
  have len: "length p = n + 1 + length e" by (simp add: p_def n_def)
  obtain m where m: "length p = Suc m" using len by (cases p) simp_all
  have nm: "n + 1 \<le> m" using len m e(1) by (cases e) simp_all
  have clean: "\<And>j. n + 1 \<le> j \<Longrightarrow> j < length p \<Longrightarrow> p ! j \<noteq> CHR ''.'' \<and> p ! j \<noteq> CHR ''/''"
  proof -
    fix j assume j: "n + 1 \<le> j" "j < length p"
    then have "p ! j = e ! (j - (n + 1))"
      by (simp add: p_def n_def nth_append nth_Cons')
    moreover have "e ! (j - (n + 1)) \<in> set e" using j len by simp
    ultimately show "p ! j \<noteq> CHR ''.'' \<and> p ! j \<noteq> CHR ''/''" using e by metis
  qed
  have pn: "p ! n = CHR ''.''" by (simp add: p_def n_def)
  obtain n' where n': "n = Suc n'" using stem(1) by (cases stem) (simp_all add: n_def)
  have pn': "p ! n' = last stem"
    using stem(1) n' by (simp add: p_def n_def nth_append last_conv_nth)
  define sA where "sA = ext_init\<lparr>matchedSlash := False, endPos := int (length p)\<rparr>"
  have cm: "p ! m \<noteq> CHR ''.''" "p ! m \<noteq> CHR ''/''"
    using clean [of m] nm m by simp_all
  have "extname_loop p (Suc m) ext_init = extname_loop p m sA"
    using cm by (simp add: ext_visit_def ext_init_def sA_def Let_def m add.commute)
  then have 1: "extname_loop p (length p) ext_init = extname_loop p m sA"
    by (simp add: m)
  have 2: "extname_loop p m sA = extname_loop p (n + 1) sA"
    using nm m clean by (intro extname_loop_clean) (simp_all add: sA_def ext_init_def)
  define sB where "sB = sA\<lparr>startDot := int n\<rparr>"
  have 3: "extname_loop p (n + 1) sA = extname_loop p n sB"
    using pn by (simp add: ext_visit_def sA_def sB_def ext_init_def Let_def)
  define sC where "sC = ext_visit (last stem) n' sB"
  have 4: "extname_loop p n sB = extname_loop p n' sC"
    using pn' stem(2) by (simp add: n' sC_def)
  have sC: "startDot sC = int n" "endPos sC = int (length p)" "preDotState sC \<noteq> 0"
    by (simp_all add: sC_def sB_def sA_def ext_init_def ext_visit_def Let_def)
  define r where "r = extname_loop p (length p) ext_init"
  have r: "r = extname_loop p n' sC" using 1 2 3 4 by (simp add: r_def)
  have fin: "startDot r = int n" "endPos r = int (length p)" "preDotState r \<noteq> 0"
    using extname_loop_stable [of sC p n'] sC by (simp_all add: r)
  have "extname p =
      (if startDot r = -1 \<or> endPos r = -1 \<or> preDotState r = 0 \<or>
          (preDotState r = 1 \<and> startDot r = endPos r - 1 \<and> startDot r = startPart r + 1)
       then []
       else take (nat (endPos r) - nat (startDot r)) (drop (nat (startDot r)) p))"
    by (simp only: extname_def r_def Let_def)
  also have "\<dots> = take (length p - n) (drop n p)"
    using fin len e(1) by simp
  also have "\<dots> = CHR ''.'' # e" by (simp add: p_def n_def)
  finally show ?thesis by (simp add: p_def)
qed

lemma extname_toLowerCase: "extname (toLowerCase p) = toLowerCase (extname p)"
  unfolding toLowerCase_def by (rule extname_map) simp_all

lemma toLowerCase_idem: "toLowerCase (toLowerCase s) = toLowerCase s"
  by (simp add: toLowerCase_def)

lemma toLowerCase_dot: "toLowerCase (CHR ''.'' # e) = CHR ''.'' # toLowerCase e"
  by (simp add: toLowerCase_def lower_char_def)

section \<open>The classifier\<close>

text \<open>
  Claim C4. \<open>getFileType\<close> is a total function of the lower-cased extension of the
  filename alone: \<open>.pdf\<close> gives pdf; \<open>.doc\<close>, \<open>.docx\<close>, \<open>.rtf\<close>, \<open>.odt\<close>,
  \<open>.txt\<close>, \<open>.md\<close> give document; \<open>.png\<close>, \<open>.jpg\<close>, \<open>.jpeg\<close> give image; every
  other filename gives unknown, one without a dot among them. The letter case of the
  filename does not matter, and a name \<open>stem.e\<close> is classified by \<open>e\<close>.
\<close>

theorem getFileType_extension_lookup:
  "(getFileType f = Pdf \<longleftrightarrow> toLowerCase (extname f) = ''.pdf'') \<and>
   (getFileType f = Document \<longleftrightarrow>
      toLowerCase (extname f) \<in> {''.doc'', ''.docx'', ''.rtf'', ''.odt'', ''.txt'', ''.md''}) \<and>
   (getFileType f = Image \<longleftrightarrow> toLowerCase (extname f) \<in> {''.png'', ''.jpg'', ''.jpeg''}) \<and>
   (getFileType f = Unknown \<longleftrightarrow>
      toLowerCase (extname f) \<notin> {''.pdf'', ''.doc'', ''.docx'', ''.rtf'', ''.odt'', ''.txt'', ''.md'',
        ''.png'', ''.jpg'', ''.jpeg''}) \<and>
   getFileType (toLowerCase f) = getFileType f \<and>
   (CHR ''.'' \<notin> set f \<longrightarrow> getFileType f = Unknown) \<and>
   (stem \<noteq> [] \<and> last stem \<noteq> CHR ''/'' \<and> e \<noteq> [] \<and> CHR ''.'' \<notin> set e \<and> CHR ''/'' \<notin> set e \<longrightarrow>
      getFileType (stem @ CHR ''.'' # e) =
        (if toLowerCase e = ''pdf'' then Pdf
         else if toLowerCase e \<in> {''doc'', ''docx'', ''rtf'', ''odt'', ''txt'', ''md''} then Document
         else if toLowerCase e \<in> {''png'', ''jpg'', ''jpeg''} then Image
         else Unknown))"
proof -
  have a: "getFileType f = Pdf \<longleftrightarrow> toLowerCase (extname f) = ''.pdf''"
    by (simp add: getFileType_def Let_def)
  have b: "getFileType f = Document \<longleftrightarrow>
      toLowerCase (extname f) \<in> {''.doc'', ''.docx'', ''.rtf'', ''.odt'', ''.txt'', ''.md''}"
    by (auto simp add: getFileType_def Let_def)
  have c: "getFileType f = Image \<longleftrightarrow> toLowerCase (extname f) \<in> {''.png'', ''.jpg'', ''.jpeg''}"
    by (auto simp add: getFileType_def Let_def)
  have d: "getFileType f = Unknown \<longleftrightarrow>
      toLowerCase (extname f) \<notin> {''.pdf'', ''.doc'', ''.docx'', ''.rtf'', ''.odt'', ''.txt'', ''.md'',
        ''.png'', ''.jpg'', ''.jpeg''}"
    by (simp add: getFileType_def Let_def)
  have e: "getFileType (toLowerCase f) = getFileType f"
    by (simp add: getFileType_def extname_toLowerCase toLowerCase_idem)
  have f: "CHR ''.'' \<notin> set f \<longrightarrow> getFileType f = Unknown"
    by (simp add: getFileType_def extname_nodot toLowerCase_def)
  have g: "stem \<noteq> [] \<and> last stem \<noteq> CHR ''/'' \<and> e \<noteq> [] \<and> CHR ''.'' \<notin> set e \<and> CHR ''/'' \<notin> set e \<longrightarrow>
      getFileType (stem @ CHR ''.'' # e) =
        (if toLowerCase e = ''pdf'' then Pdf
         else if toLowerCase e \<in> {''doc'', ''docx'', ''rtf'', ''odt'', ''txt'', ''md''} then Document
         else if toLowerCase e \<in> {''png'', ''jpg'', ''jpeg''} then Image
         else Unknown)"
    by (simp add: getFileType_def extname_stem_ext toLowerCase_dot)
  show ?thesis using a b c d e f g by blast
qed

theorem getFileType_extension_lookup_witness:
  "getFileType ''README'' = Unknown \<and> getFileType ''Scan.JPeG'' = Image \<and>
   getFileType ''notes.tar.Docx'' = Document \<and> getFileType ''photo.gif'' = Unknown"
proof -
  have l: "toLowerCase ''JPeG'' = ''jpeg''" "toLowerCase ''Docx'' = ''docx''"
    "toLowerCase ''gif'' = ''gif''"
    by code_simp+
  show ?thesis
    using getFileType_extension_lookup [of "''README''" "''Scan''" "''JPeG''"]
          getFileType_extension_lookup [of "''README''" "''notes.tar''" "''Docx''"]
          getFileType_extension_lookup [of "''README''" "''photo''" "''gif''"]
    by (simp add: l)
qed

section \<open>The printer health check\<close>

lemma find5:
  "find (\<lambda>r. fst r t) [(p1, d1), (p2, d2), (p3, d3), (p4, d4), (p5, d5)] =
     (if p1 t then Some (p1, d1) else if p2 t then Some (p2, d2) else if p3 t then Some (p3, d3)
      else if p4 t then Some (p4, d4) else if p5 t then Some (p5, d5) else None)"
  by simp

lemma classify_text_chain:
  "classify_text t =
     (if str_includes t ''out of paper'' \<or> str_includes t ''media empty''
         \<or> str_includes t ''no media'' then
        \<lparr>status = ''error'', detail = Some ''media-empty''\<rparr>
      else if str_includes t ''out of ink'' \<or> str_includes t ''toner empty''
         \<or> str_includes t ''ink empty'' then
        \<lparr>status = ''error'', detail = Some ''toner-empty''\<rparr>
      else if str_includes t ''cover open'' \<or> str_includes t ''door open'' then
        \<lparr>status = ''error'', detail = Some ''cover-open''\<rparr>
      else if str_includes t ''stopped'' \<and> \<not> str_includes t ''idle'' then
        \<lparr>status = ''error'', detail = Some ''stopped''\<rparr>
      else if str_includes t ''not connected'' \<or> str_includes t ''offline'' then
        \<lparr>status = ''error'', detail = Some ''offline''\<rparr>
      else if str_includes t ''idle'' \<or> str_includes t ''processing'' then
        \<lparr>status = ''healthy'', detail = None\<rparr>
      else \<lparr>status = ''unknown'', detail = Some ''ipp_unsupported''\<rparr>)"
  unfolding classify_text_def fault_rules_def healthy_text_def find5
  by (simp only: if_distrib [of "case_option _ _"] option.case snd_conv cong: if_cong)

lemma checkPrinterStatus_split:
  "checkPrinterStatus pf pname fls =
     (if \<not> truthy pname then
        Inr \<lparr>status = ''unknown'', detail = Some ''no_printer_configured''\<rparr>
      else if exec_error (lpstat_p pf pname fls) \<noteq> None \<and> exec_stdout (lpstat_p pf pname fls) = []
      then Inr \<lparr>status = ''unknown'', detail = Some ''cups_unavailable''\<rparr>
      else Inr (classify_text (toLowerCase (exec_stdout (lpstat_p pf pname fls)))))"
  unfolding checkPrinterStatus_def Let_def classify_text_chain lpstat_p_def
  by (simp only: if_distrib [of Inr] cong: if_cong)

lemma classify_text_fault:
  assumes "\<exists>rule \<in> set fault_rules. fst rule t"
  shows "status (classify_text t) = ''error''"
proof -
  from assms obtain rule where "find (\<lambda>rule. fst rule t) fault_rules = Some rule"
    by (cases "find (\<lambda>rule. fst rule t) fault_rules") (auto simp: find_None_iff)
  then show ?thesis by (simp add: classify_text_def)
qed

lemma classify_text_no_fault:
  assumes "\<not> (\<exists>rule \<in> set fault_rules. fst rule t)"
  shows "classify_text t =
           (if healthy_text t then \<lparr>status = ''healthy'', detail = None\<rparr>
            else \<lparr>status = ''unknown'', detail = Some ''ipp_unsupported''\<rparr>)"
proof -
  from assms have "find (\<lambda>rule. fst rule t) fault_rules = None"
    by (auto simp: find_None_iff)
  then show ?thesis by (simp add: classify_text_def)
qed


lemma classify_text_status:
  "status (classify_text t) \<in> {''healthy'', ''error'', ''unknown''}"
proof (cases "\<exists>rule \<in> set fault_rules. fst rule t")
  case True
  then show ?thesis using classify_text_fault [of t] by simp
next
  case False
  then show ?thesis using classify_text_no_fault [of t] by simp
qed

text \<open>
  Claim C6. Whenever the status query yields a text, \<open>checkPrinterStatus\<close> classifies
  its lower-cased output by the ordered rules: the five fault rules (media-empty,
  toner-empty, cover-open, stopped without idle, offline) are tried, in this order, before
  the healthy phrases \<open>idle\<close> and \<open>processing\<close>, and a text that matches no rule is
  \<open>unknown/ipp_unsupported\<close>. So a text that matches a fault rule is an error, whatever
  healthy phrase it also contains.
\<close>

theorem checkPrinterStatus_ordered_rules:
  "(truthy pname \<and>
    \<not> (exec_error (lpstat_p pf pname fls) \<noteq> None \<and> exec_stdout (lpstat_p pf pname fls) = []) \<longrightarrow>
      checkPrinterStatus pf pname fls =
        Inr (classify_text (toLowerCase (exec_stdout (lpstat_p pf pname fls))))) \<and>
   ((\<exists>rule \<in> set fault_rules. fst rule t) \<longrightarrow> status (classify_text t) = ''error'') \<and>
   ((\<exists>rule \<in> set fault_rules. fst rule t) \<and> healthy_text t \<longrightarrow>
      status (classify_text t) = ''error'') \<and>
   (\<not> (\<exists>rule \<in> set fault_rules. fst rule t) \<and> healthy_text t \<longrightarrow>
      classify_text t = \<lparr>status = ''healthy'', detail = None\<rparr>) \<and>
   (\<not> (\<exists>rule \<in> set fault_rules. fst rule t) \<and> \<not> healthy_text t \<longrightarrow>
      classify_text t = \<lparr>status = ''unknown'', detail = Some ''ipp_unsupported''\<rparr>)"
proof -
  have a: "truthy pname \<and>
    \<not> (exec_error (lpstat_p pf pname fls) \<noteq> None \<and> exec_stdout (lpstat_p pf pname fls) = []) \<longrightarrow>
      checkPrinterStatus pf pname fls =
        Inr (classify_text (toLowerCase (exec_stdout (lpstat_p pf pname fls))))"
    by (auto simp: checkPrinterStatus_split)
  have b: "(\<exists>rule \<in> set fault_rules. fst rule t) \<longrightarrow> status (classify_text t) = ''error''"
    using classify_text_fault [of t] by blast
  have c: "\<not> (\<exists>rule \<in> set fault_rules. fst rule t) \<and> healthy_text t \<longrightarrow>
      classify_text t = \<lparr>status = ''healthy'', detail = None\<rparr>"
    using classify_text_no_fault [of t] by simp
  have d: "\<not> (\<exists>rule \<in> set fault_rules. fst rule t) \<and> \<not> healthy_text t \<longrightarrow>
      classify_text t = \<lparr>status = ''unknown'', detail = Some ''ipp_unsupported''\<rparr>"
    using classify_text_no_fault [of t] by simp
  show ?thesis using a b c d by blast
qed

theorem checkPrinterStatus_ordered_rules_witness:
  "checkPrinterStatus demo_platform (Some ''HP_LaserJet'') Map.empty =
     Inr \<lparr>status = ''error'', detail = Some ''media-empty''\<rparr> \<and>
   healthy_text (toLowerCase demo_status_text) \<and>
   classify_text ''printer hp_laserjet now printing hp_laserjet-42'' =
     \<lparr>status = ''unknown'', detail = Some ''ipp_unsupported''\<rparr> \<and>
   classify_text ''printer hp_laserjet is idle'' = \<lparr>status = ''healthy'', detail = None\<rparr> \<and>
   classify_text ''printer hp_laserjet is idle.  stopped jobs were purged'' =
     \<lparr>status = ''healthy'', detail = None\<rparr> \<and>
   classify_text ''printer hp_laserjet stopped while processing hp_laserjet-42'' =
     \<lparr>status = ''error'', detail = Some ''stopped''\<rparr>"
proof -
  have h1: "truthy (Some ''HP_LaserJet'')" by code_simp
  have h2: "lpstat_p demo_platform (Some ''HP_LaserJet'') Map.empty = ok_result demo_status_text"
    by (simp add: lpstat_p_def demo_platform_def interpolate_def)
  have h3: "\<exists>rule \<in> set fault_rules. fst rule (toLowerCase demo_status_text)" by code_simp
  have h4: "healthy_text (toLowerCase demo_status_text)" by code_simp
  have h5: "classify_text (toLowerCase demo_status_text) =
              \<lparr>status = ''error'', detail = Some ''media-empty''\<rparr>" by code_simp
  have h6: "\<not> (\<exists>rule \<in> set fault_rules. fst rule ''printer hp_laserjet now printing hp_laserjet-42'')"
    "\<not> healthy_text ''printer hp_laserjet now printing hp_laserjet-42''"
    "\<not> (\<exists>rule \<in> set fault_rules. fst rule ''printer hp_laserjet is idle'')"
    "healthy_text ''printer hp_laserjet is idle''"
    by code_simp+
  have h7: "classify_text ''printer hp_laserjet is idle.  stopped jobs were purged'' =
              \<lparr>status = ''healthy'', detail = None\<rparr>"
    "classify_text ''printer hp_laserjet stopped while processing hp_laserjet-42'' =
              \<lparr>status = ''error'', detail = Some ''stopped''\<rparr>"
    by code_simp+
  show ?thesis
    using checkPrinterStatus_ordered_rules
            [where pname = "Some ''HP_LaserJet''" and pf = demo_platform and fls = Map.empty
               and t = "''printer hp_laserjet now printing hp_laserjet-42''"]
          checkPrinterStatus_ordered_rules
            [where pname = "Some ''HP_LaserJet''" and pf = demo_platform and fls = Map.empty
               and t = "''printer hp_laserjet is idle''"]
          h1 h2 h4 h5 h6 h7
    by (simp add: ok_result_def)
qed

text \<open>
  Claim C9. The promise of \<open>checkPrinterStatus\<close> is always resolved, never rejected:
  with no printer configured it resolves to \<open>unknown/no_printer_configured\<close>, and when
  the status query fails without output it resolves to \<open>unknown/cups_unavailable\<close>.
\<close>

theorem checkPrinterStatus_total:
  "(\<exists>r. checkPrinterStatus pf pname fls = Inr r \<and> status r \<in> {''healthy'', ''error'', ''unknown''}) \<and>
   (\<not> truthy pname \<longrightarrow>
      checkPrinterStatus pf pname fls =
        Inr \<lparr>status = ''unknown'', detail = Some ''no_printer_configured''\<rparr>) \<and>
   (truthy pname \<and> exec_error (lpstat_p pf pname fls) \<noteq> None \<and>
    exec_stdout (lpstat_p pf pname fls) = [] \<longrightarrow>
      checkPrinterStatus pf pname fls =
        Inr \<lparr>status = ''unknown'', detail = Some ''cups_unavailable''\<rparr>)"
proof -
  have a: "\<not> truthy pname \<longrightarrow>
      checkPrinterStatus pf pname fls =
        Inr \<lparr>status = ''unknown'', detail = Some ''no_printer_configured''\<rparr>"
    by (auto simp: checkPrinterStatus_split)
  have b: "truthy pname \<and> exec_error (lpstat_p pf pname fls) \<noteq> None \<and>
    exec_stdout (lpstat_p pf pname fls) = [] \<longrightarrow>
      checkPrinterStatus pf pname fls =
        Inr \<lparr>status = ''unknown'', detail = Some ''cups_unavailable''\<rparr>"
    by (auto simp: checkPrinterStatus_split)
  have c: "\<exists>r. checkPrinterStatus pf pname fls = Inr r \<and> status r \<in> {''healthy'', ''error'', ''unknown''}"
  proof (cases "truthy pname")
    case False
    with a show ?thesis by simp
  next
    case True
    show ?thesis
    proof (cases "exec_error (lpstat_p pf pname fls) \<noteq> None \<and> exec_stdout (lpstat_p pf pname fls) = []")
      case True
      with b \<open>truthy pname\<close> show ?thesis by simp
    next
      case False
      with \<open>truthy pname\<close> have "checkPrinterStatus pf pname fls =
        Inr (classify_text (toLowerCase (exec_stdout (lpstat_p pf pname fls))))"
        by (auto simp: checkPrinterStatus_split)
      then show ?thesis using classify_text_status by simp
    qed
  qed
  show ?thesis using a b c by blast
qed

theorem checkPrinterStatus_total_witness:
  "checkPrinterStatus demo_platform None Map.empty =
     Inr \<lparr>status = ''unknown'', detail = Some ''no_printer_configured''\<rparr> \<and>
   checkPrinterStatus (demo_platform\<lparr>exec_shell := \<lambda>cmd fls. (failed_result ''spawn lpstat ENOENT'', fls)\<rparr>)
       (Some ''HP_LaserJet'') Map.empty =
     Inr \<lparr>status = ''unknown'', detail = Some ''cups_unavailable''\<rparr>"
proof -
  have h1: "\<not> truthy None" "truthy (Some ''HP_LaserJet'')" by code_simp+
  have h2: "lpstat_p (demo_platform\<lparr>exec_shell := \<lambda>cmd fls. (failed_result ''spawn lpstat ENOENT'', fls)\<rparr>)
              (Some ''HP_LaserJet'') Map.empty = failed_result ''spawn lpstat ENOENT''"
    by (simp add: lpstat_p_def)
  show ?thesis
    using checkPrinterStatus_total [where pname = None and pf = demo_platform and fls = Map.empty]
          checkPrinterStatus_total
            [where pname = "Some ''HP_LaserJet''" and fls = Map.empty
               and pf = "demo_platform\<lparr>exec_shell := \<lambda>cmd fls. (failed_result ''spawn lpstat ENOENT'', fls)\<rparr>"]
          h1 h2
    by (simp add: failed_result_def)
qed

section \<open>The image conversion\<close>

lemma replace_first_absent:
  "pat \<noteq> [] \<Longrightarrow> \<not> str_includes s pat \<Longrightarrow> replace_first s pat rep = s"
  by (induction s) auto

lemma replace_first_here: "replace_first (pat @ b) pat rep = rep @ b"
proof (cases "pat @ b")
  case Nil
  then show ?thesis by simp
next
  case (Cons c cs)
  have "prefix pat (c # cs)" using Cons by (metis prefixI)
  then have "replace_first (c # cs) pat rep = rep @ drop (length pat) (c # cs)" by simp
  also have "drop (length pat) (c # cs) = b" using Cons by (metis append_eq_conv_conj)
  finally show ?thesis using Cons by simp
qed

lemma replace_first_at:
  "(\<forall>i < length a. \<not> prefix pat (drop i (a @ pat @ b))) \<Longrightarrow>
   replace_first (a @ pat @ b) pat rep = a @ rep @ b"
proof (induction a)
  case Nil
  show ?case by (simp add: replace_first_here)
next
  case (Cons c a)
  have np: "\<not> prefix pat ((c # a) @ pat @ b)"
    using Cons.prems by (metis drop0 length_greater_0_conv list.distinct(1))
  have "\<forall>i < length a. \<not> prefix pat (drop i (a @ pat @ b))"
  proof (intro allI impI)
    fix i assume "i < length a"
    then have "Suc i < length (c # a)" by simp
    with Cons.prems have "\<not> prefix pat (drop (Suc i) ((c # a) @ pat @ b))" by blast
    then show "\<not> prefix pat (drop i (a @ pat @ b))" by simp
  qed
  with Cons.IH have "replace_first (a @ pat @ b) pat rep = a @ rep @ b" by simp
  with np show ?case by simp
qed

lemma str_includes_first:
  "str_includes s pat \<Longrightarrow>
   \<exists>a b. s = a @ pat @ b \<and> (\<forall>i < length a. \<not> prefix pat (drop i s))"
proof (induction s)
  case Nil
  then show ?case by simp
next
  case (Cons c s)
  show ?case
  proof (cases "prefix pat (c # s)")
    case True
    then obtain b where "c # s = pat @ b" by (auto simp: prefix_def)
    then have "c # s = [] @ pat @ b \<and> (\<forall>i < length ([]::string). \<not> prefix pat (drop i (c # s)))"
      by simp
    then show ?thesis by blast
  next
    case False
    with Cons.prems have "str_includes s pat" by simp
    with Cons.IH obtain a b where ab: "s = a @ pat @ b" "\<forall>i < length a. \<not> prefix pat (drop i s)"
      by blast
    have "\<forall>i < length (c # a). \<not> prefix pat (drop i (c # s))"
    proof (intro allI impI)
      fix i assume i: "i < length (c # a)"
      show "\<not> prefix pat (drop i (c # s))"
      proof (cases i)
        case 0
        with False show ?thesis by simp
      next
        case (Suc j)
        with i ab(2) show ?thesis by simp
      qed
    qed
    with ab(1) have "c # s = (c # a) @ pat @ b \<and> (\<forall>i < length (c # a). \<not> prefix pat (drop i (c # s)))"
      by simp
    then show ?thesis by blast
  qed
qed

lemma str_includes_append: "str_includes (a @ pat @ b) pat"
proof (induction a)
  case Nil
  show ?case
  proof (cases "pat @ b")
    case Nil
    then show ?thesis by simp
  next
    case (Cons c cs)
    then have "prefix pat (c # cs)" by (metis prefixI)
    then show ?thesis using Cons by simp
  qed
next
  case (Cons c a)
  then show ?case by simp
qed

lemma image_ext_not_pdf:
  assumes "toLowerCase x \<in> set [''.png'', ''.jpg'', ''.jpeg'']"
  shows "x \<noteq> ''.pdf''"
proof
  assume "x = ''.pdf''"
  moreover have "toLowerCase ''.pdf'' = ''.pdf''" by code_simp
  ultimately show False using assms by simp
qed

lemma pdf_swap_differs:
  assumes e: "e \<in> set [''.png'', ''.jpg'', ''.jpeg'']"
      and w: "w \<noteq> []"
      and 1: "''.pdf'' @ b = w @ ''.pdf''"
      and 2: "e @ b = w @ x"
  shows False
proof (cases w)
  case Nil
  with w show False by simp
next
  case (Cons c1 w1)
  show False
  proof (cases w1)
    case Nil
    with Cons 1 show False by simp
  next
    case (Cons c2 w2)
    note C2 = this
    show False
    proof (cases w2)
      case Nil
      with C2 \<open>w = c1 # w1\<close> 1 show False by simp
    next
      case (Cons c3 w3)
      with C2 \<open>w = c1 # w1\<close> 1 have "c3 = CHR ''d''" by simp
      moreover from Cons C2 \<open>w = c1 # w1\<close> 2 e have "c3 = CHR ''n'' \<or> c3 = CHR ''p''" by auto
      ultimately show False by simp
    qed
  qed
qed

lemma replace_ext_once:
  assumes p: "p = stem @ e" and ne: "e \<noteq> []" and once: "\<not> str_includes (butlast p) e"
  shows "replace_first p e rep = stem @ rep"
proof -
  have "str_includes p e" using str_includes_append [of stem e "[]"] p by simp
  then obtain a b where ab: "p = a @ e @ b" "\<forall>i < length a. \<not> prefix e (drop i p)"
    using str_includes_first by blast
  have "b = []"
  proof (rule ccontr)
    assume "b \<noteq> []"
    then have "butlast p = a @ e @ butlast b" using ab(1) by (simp add: butlast_append)
    then have "str_includes (butlast p) e" using str_includes_append by metis
    with once show False by simp
  qed
  with ab(1) p have "a = stem" by simp
  have "replace_first (a @ e @ b) e rep = a @ rep @ b"
    using ab replace_first_at [of a e b rep] by simp
  with \<open>b = []\<close> \<open>a = stem\<close> ab(1) show ?thesis by simp
qed

lemma replace_ext_earlier:
  assumes p: "p = stem @ x"
      and e: "e \<in> set [''.png'', ''.jpg'', ''.jpeg'']" "e = toLowerCase x"
      and early: "str_includes (butlast p) e \<or> x \<noteq> e"
  shows "replace_first p e ''.pdf'' \<noteq> stem @ ''.pdf''"
proof (cases "str_includes p e")
  case False
  have "e \<noteq> []" using e(1) by auto
  with False have "replace_first p e ''.pdf'' = p" by (simp add: replace_first_absent)
  moreover have "x \<noteq> ''.pdf''" using image_ext_not_pdf e by simp
  ultimately show ?thesis using p by simp
next
  case True
  then obtain a b where ab: "p = a @ e @ b" "\<forall>i < length a. \<not> prefix e (drop i p)"
    using str_includes_first by blast
  have len: "length e = length x" using e(2) by (simp add: toLowerCase_def)
  have r: "replace_first p e ''.pdf'' = a @ ''.pdf'' @ b"
    using ab replace_first_at [of a e b "''.pdf''"] by simp
  have bne: "b \<noteq> []"
  proof
    assume b: "b = []"
    with ab(1) p len have ax: "a = stem" "e = x" by simp_all
    with early have "str_includes (butlast p) e" by simp
    then obtain a' b' where a'b': "butlast p = a' @ e @ b'"
      using str_includes_first by blast
    have pne: "p \<noteq> []" using ab(1) e(1) by auto
    then have "p = butlast p @ [last p]" by simp
    then obtain l where pp: "p = a' @ e @ b' @ [l]" using a'b' by (metis append.assoc)
    have "length p = length a' + length e + length b' + 1"
      using arg_cong [OF pp, of length] by simp
    moreover have "length p = length a + length e" using ab(1) b by simp
    ultimately have "length a' < length a" by arith
    moreover have "prefix e (drop (length a') p)"
      using arg_cong [OF pp, of "drop (length a')"] by simp
    ultimately show False using ab(2) by blast
  qed
  show ?thesis
  proof
    assume eq: "replace_first p e ''.pdf'' = stem @ ''.pdf''"
    have "length a + length e + length b = length stem + length x"
      using arg_cong [OF ab(1), of length] arg_cong [OF p, of length] by simp
    then have la: "length a < length stem" using len bne by (cases b) simp_all
    have "a @ (e @ b) = stem @ x" using ab(1) p by simp
    then obtain us where "a = stem @ us \<and> us @ (e @ b) = x \<or> a @ us = stem \<and> e @ b = us @ x"
      unfolding append_eq_append_conv2 by blast
    with la have "a @ us = stem" by auto
    with la have w: "stem = a @ us" "us \<noteq> []" by auto
    define w where "w = us"
    note w = w [folded w_def]
    from eq r w have 1: "''.pdf'' @ b = w @ ''.pdf''" by simp
    from ab(1) p w have 2: "e @ b = w @ x" by simp
    from pdf_swap_differs [OF e(1) w(2) 1 2] show False .
  qed
qed

lemma tryMagickV6_cases:
  "tryMagickV6 pf args out fls =
     (if \<not> which_found pf ''convert'' then
        (Inl (ConversionError ''ImageMagick not found. Install with: sudo apt install imagemagick''
               ''image''), fls)
      else if tier_ok pf ''convert'' args out fls then (Inr out, tier_files pf ''convert'' args fls)
      else (case exec_error (fst (exec_file pf ''convert'' args fls)) of
              Some m \<Rightarrow> (Inl (ConversionError (''Image conversion failed: '' @ m) ''image''),
                         tier_files pf ''convert'' args fls)
            | None \<Rightarrow> (Inl (ConversionError ''PDF output not created by ImageMagick'' ''image''),
                       tier_files pf ''convert'' args fls)))"
  by (simp add: tryMagickV6_def tier_ok_def tier_files_def split: prod.splits option.splits)

lemma tryMagickV7_cases:
  "tryMagickV7 pf args out fls =
     (if tier_ok pf ''magick'' args out fls then (Inr out, tier_files pf ''magick'' args fls)
      else tryMagickV6 pf args out (tier_files pf ''magick'' args fls))"
  by (simp add: tryMagickV7_def tier_ok_def tier_files_def split: prod.splits option.splits)

lemma tryMagickV6_failure:
  "\<not> tier_ok pf ''convert'' args out fls \<Longrightarrow> \<exists>e. fst (tryMagickV6 pf args out fls) = Inl e"
  by (simp add: tryMagickV6_cases split: option.splits)

lemma convertImageToPDF_valid:
  "existsSync fls p \<Longrightarrow> toLowerCase (extname p) \<in> set image_exts \<Longrightarrow>
   convertImageToPDF pf p fls =
     tryMagickV7 pf (magick_args p (replace_first p (toLowerCase (extname p)) ''.pdf''))
       (replace_first p (toLowerCase (extname p)) ''.pdf'') fls"
  by (auto simp: convertImageToPDF_def image_exts_def Let_def)

text \<open>
  Claim C7. For an image that exists and has a supported extension, \<open>magick\<close> is tried
  first and its output path is the result when it is found, runs without error and leaves
  the output file; in every other case \<open>convert\<close> is tried on the file system the first
  tier left. When \<open>convert\<close> is not found either, the conversion fails with the
  conversion error "ImageMagick not found"; and when neither tier succeeds the result is
  an error, never a path.
\<close>

theorem convertImageToPDF_two_tiers:
  assumes "existsSync fls p" and "toLowerCase (extname p) \<in> set image_exts"
      and "out = replace_first p (toLowerCase (extname p)) ''.pdf''"
      and "args = magick_args p out"
      and "fls1 = tier_files pf ''magick'' args fls"
  shows "(tier_ok pf ''magick'' args out fls \<longrightarrow> convertImageToPDF pf p fls = (Inr out, fls1)) \<and>
         (\<not> tier_ok pf ''magick'' args out fls \<longrightarrow>
            convertImageToPDF pf p fls = tryMagickV6 pf args out fls1) \<and>
         (\<not> tier_ok pf ''magick'' args out fls \<and> tier_ok pf ''convert'' args out fls1 \<longrightarrow>
            convertImageToPDF pf p fls = (Inr out, tier_files pf ''convert'' args fls1)) \<and>
         (\<not> tier_ok pf ''magick'' args out fls \<and> \<not> which_found pf ''convert'' \<longrightarrow>
            convertImageToPDF pf p fls =
              (Inl (ConversionError
                 ''ImageMagick not found. Install with: sudo apt install imagemagick'' ''image''),
               fls1)) \<and>
         (\<not> tier_ok pf ''magick'' args out fls \<and> \<not> tier_ok pf ''convert'' args out fls1 \<longrightarrow>
            (\<exists>e. fst (convertImageToPDF pf p fls) = Inl e))"
proof -
  have c: "convertImageToPDF pf p fls = tryMagickV7 pf args out fls"
    using assms by (simp add: convertImageToPDF_valid)
  have 1: "tier_ok pf ''magick'' args out fls \<longrightarrow> convertImageToPDF pf p fls = (Inr out, fls1)"
    using assms(5) by (simp add: c tryMagickV7_cases)
  have 2: "\<not> tier_ok pf ''magick'' args out fls \<longrightarrow>
            convertImageToPDF pf p fls = tryMagickV6 pf args out fls1"
    using assms(5) by (simp add: c tryMagickV7_cases)
  have 3: "tier_ok pf ''convert'' args out fls1 \<longrightarrow>
            tryMagickV6 pf args out fls1 = (Inr out, tier_files pf ''convert'' args fls1)"
    by (simp add: tryMagickV6_cases tier_ok_def)
  have 4: "\<not> which_found pf ''convert'' \<longrightarrow> tryMagickV6 pf args out fls1 =
              (Inl (ConversionError
                 ''ImageMagick not found. Install with: sudo apt install imagemagick'' ''image''),
               fls1)"
    by (simp add: tryMagickV6_cases)
  have 5: "\<not> tier_ok pf ''convert'' args out fls1 \<longrightarrow> (\<exists>e. fst (tryMagickV6 pf args out fls1) = Inl e)"
    using tryMagickV6_failure by blast
  show ?thesis using 1 2 3 4 5 by simp
qed

theorem convertImageToPDF_two_tiers_witness:
  "fst (convertImageToPDF demo_platform ''print-queue/j7_scan.png''
          [''print-queue/j7_scan.png'' \<mapsto> ''PNG'']) = Inr ''print-queue/j7_scan.pdf'' \<and>
   fst (convertImageToPDF (demo_platform\<lparr>which_found := \<lambda>tool. False\<rparr>) ''print-queue/j7_scan.png''
          [''print-queue/j7_scan.png'' \<mapsto> ''PNG'']) =
     Inl (ConversionError ''ImageMagick not found. Install with: sudo apt install imagemagick''
            ''image'')"
proof -
  define p where "p = ''print-queue/j7_scan.png''"
  define fls :: fs where "fls = [p \<mapsto> ''PNG'']"
  define out where "out = replace_first p (toLowerCase (extname p)) ''.pdf''"
  define none where "none = demo_platform\<lparr>which_found := \<lambda>tool. False\<rparr>"
  have h1: "existsSync fls p" by (simp add: existsSync_def fls_def)
  have h2: "toLowerCase (extname p) \<in> set image_exts" unfolding p_def by code_simp
  have o: "out = ''print-queue/j7_scan.pdf''" unfolding out_def p_def by code_simp
  have m: "\<not> tier_ok demo_platform ''magick'' (magick_args p out) out fls"
    "\<not> tier_ok none ''magick'' (magick_args p out) out fls"
    "\<not> which_found none ''convert''"
    by (simp_all add: tier_ok_def demo_platform_def none_def)
  have f: "tier_files demo_platform ''magick'' (magick_args p out) fls = fls"
    by (simp add: tier_files_def demo_platform_def)
  have c: "tier_ok demo_platform ''convert'' (magick_args p out) out fls"
    by (simp add: tier_ok_def demo_platform_def ok_result_def magick_args_def existsSync_def)
  have "convertImageToPDF demo_platform p fls =
          (Inr out, tier_files demo_platform ''convert'' (magick_args p out) fls)"
    using convertImageToPDF_two_tiers [OF h1 h2 out_def refl refl, of demo_platform] m c f by metis
  then have "fst (convertImageToPDF demo_platform p fls) = Inr out" by simp
  moreover have "convertImageToPDF none p fls =
     (Inl (ConversionError ''ImageMagick not found. Install with: sudo apt install imagemagick''
            ''image''), tier_files none ''magick'' (magick_args p out) fls)"
    using convertImageToPDF_two_tiers [OF h1 h2 out_def refl refl, of none] m by metis
  then have "fst (convertImageToPDF none p fls) =
     Inl (ConversionError ''ImageMagick not found. Install with: sudo apt install imagemagick''
            ''image'')" by simp
  ultimately show ?thesis unfolding o p_def fls_def none_def by simp
qed

lemma tryMagickV7_success: "tryMagickV7 pf args out fls = (Inr q, fls') \<Longrightarrow> q = out"
  by (auto simp: tryMagickV7_cases tryMagickV6_cases split: if_splits option.splits)

lemma convertImageToPDF_success:
  "convertImageToPDF pf p fls = (Inr q, fls') \<Longrightarrow>
   q = replace_first p (toLowerCase (extname p)) ''.pdf''"
  by (auto simp: convertImageToPDF_def Let_def split: if_splits dest: tryMagickV7_success)

text \<open>
  Claim C10. The path a successful image conversion returns is the input path with the
  first occurrence of its lower-cased extension replaced by \<open>.pdf\<close>. When the input
  path ends with its extension, the extension is in lower case and occurs nowhere before
  the end, this is the input path with \<open>.pdf\<close> for its extension; when the lower-cased
  extension occurs earlier in the path, or the extension is not in lower case, it is not.
\<close>

theorem convertImageToPDF_output_path:
  "(convertImageToPDF pf p fls = (Inr q, fls') \<longrightarrow>
      q = replace_first p (toLowerCase (extname p)) ''.pdf'') \<and>
   (p = stem @ extname p \<and> toLowerCase (extname p) \<in> set image_exts \<and>
    extname p = toLowerCase (extname p) \<and> \<not> str_includes (butlast p) (extname p) \<longrightarrow>
      replace_first p (toLowerCase (extname p)) ''.pdf'' = stem @ ''.pdf'') \<and>
   (p = stem @ extname p \<and> toLowerCase (extname p) \<in> set image_exts \<and>
    (str_includes (butlast p) (toLowerCase (extname p)) \<or> extname p \<noteq> toLowerCase (extname p)) \<longrightarrow>
      replace_first p (toLowerCase (extname p)) ''.pdf'' \<noteq> stem @ ''.pdf'')"
proof -
  have 1: "convertImageToPDF pf p fls = (Inr q, fls') \<longrightarrow>
      q = replace_first p (toLowerCase (extname p)) ''.pdf''"
    using convertImageToPDF_success by blast
  have 2: "p = stem @ extname p \<and> toLowerCase (extname p) \<in> set image_exts \<and>
    extname p = toLowerCase (extname p) \<and> \<not> str_includes (butlast p) (extname p) \<longrightarrow>
      replace_first p (toLowerCase (extname p)) ''.pdf'' = stem @ ''.pdf''"
  proof (intro impI, elim conjE)
    assume a: "p = stem @ extname p" "toLowerCase (extname p) \<in> set image_exts"
      "extname p = toLowerCase (extname p)" "\<not> str_includes (butlast p) (extname p)"
    have ne: "extname p \<noteq> []" using a(2,3) by (auto simp: image_exts_def)
    have "replace_first p (extname p) ''.pdf'' = stem @ ''.pdf''"
      using a(1) ne a(4) by (rule replace_ext_once)
    with a(3) show "replace_first p (toLowerCase (extname p)) ''.pdf'' = stem @ ''.pdf''" by simp
  qed
  have 3: "p = stem @ extname p \<and> toLowerCase (extname p) \<in> set image_exts \<and>
    (str_includes (butlast p) (toLowerCase (extname p)) \<or> extname p \<noteq> toLowerCase (extname p)) \<longrightarrow>
      replace_first p (toLowerCase (extname p)) ''.pdf'' \<noteq> stem @ ''.pdf''"
    using replace_ext_earlier [of p stem "extname p" "toLowerCase (extname p)"]
    by (simp add: image_exts_def)
  show ?thesis using 1 2 3 by blast
qed

theorem convertImageToPDF_output_path_witness:
  "fst (convertImageToPDF demo_platform ''print-queue/j7_scan.png''
          [''print-queue/j7_scan.png'' \<mapsto> ''PNG'']) = Inr ''print-queue/j7_scan.pdf'' \<and>
   replace_first ''print-queue/j8_a.png.png'' (toLowerCase (extname ''print-queue/j8_a.png.png'')) ''.pdf''
     \<noteq> ''print-queue/j8_a.png.pdf'' \<and>
   replace_first ''print-queue/j9_PHOTO.PNG'' (toLowerCase (extname ''print-queue/j9_PHOTO.PNG'')) ''.pdf''
     \<noteq> ''print-queue/j9_PHOTO.pdf''"
proof -
  define p where "p = ''print-queue/j7_scan.png''"
  define fls :: fs where "fls = [p \<mapsto> ''PNG'']"
  have r: "convertImageToPDF demo_platform p fls =
             (fst (convertImageToPDF demo_platform p fls), snd (convertImageToPDF demo_platform p fls))"
    by simp
  have ok: "fst (convertImageToPDF demo_platform p fls) =
              Inr (replace_first p (toLowerCase (extname p)) ''.pdf'')"
    unfolding p_def fls_def
    by (simp add: convertImageToPDF_def existsSync_def Let_def tryMagickV7_def tryMagickV6_def
          demo_platform_def ok_result_def magick_args_def)
       code_simp
  have a: "p = ''print-queue/j7_scan'' @ extname p" "toLowerCase (extname p) \<in> set image_exts"
    "extname p = toLowerCase (extname p)" "\<not> str_includes (butlast p) (extname p)"
    unfolding p_def by code_simp+
  have b: "''print-queue/j8_a.png.png'' = ''print-queue/j8_a.png'' @ extname ''print-queue/j8_a.png.png''"
    "toLowerCase (extname ''print-queue/j8_a.png.png'') \<in> set image_exts"
    "str_includes (butlast ''print-queue/j8_a.png.png'') (toLowerCase (extname ''print-queue/j8_a.png.png''))"
    by code_simp+
  have c: "''print-queue/j9_PHOTO.PNG'' = ''print-queue/j9_PHOTO'' @ extname ''print-queue/j9_PHOTO.PNG''"
    "toLowerCase (extname ''print-queue/j9_PHOTO.PNG'') \<in> set image_exts"
    "extname ''print-queue/j9_PHOTO.PNG'' \<noteq> toLowerCase (extname ''print-queue/j9_PHOTO.PNG'')"
    by code_simp+
  have 1: "fst (convertImageToPDF demo_platform p fls) = Inr (''print-queue/j7_scan'' @ ''.pdf'')"
    using convertImageToPDF_output_path [of demo_platform p fls _ _ "''print-queue/j7_scan''"] a ok
    by simp
  have 2: "replace_first ''print-queue/j8_a.png.png''
             (toLowerCase (extname ''print-queue/j8_a.png.png'')) ''.pdf''
           \<noteq> ''print-queue/j8_a.png'' @ ''.pdf''"
    using convertImageToPDF_output_path
            [of demo_platform "''print-queue/j8_a.png.png''" fls _ _ "''print-queue/j8_a.png''"] b
    by blast
  have 3: "replace_first ''print-queue/j9_PHOTO.PNG''
             (toLowerCase (extname ''print-queue/j9_PHOTO.PNG'')) ''.pdf''
           \<noteq> ''print-queue/j9_PHOTO'' @ ''.pdf''"
    using convertImageToPDF_output_path
            [of demo_platform "''print-queue/j9_PHOTO.PNG''" fls _ _ "''print-queue/j9_PHOTO''"] c
    by blast
  show ?thesis using 1 2 3 unfolding p_def fls_def by simp
qed

section \<open>Printer resolution\<close>

lemma scan_lines:
  "foldl scan_line (d, av) lines =
     (if second_fields lines = [] then d else Some (last (second_fields lines)),
      av @ printer_names lines)"
proof (induction lines arbitrary: d av)
  case Nil
  show ?case by (simp add: second_fields_def printer_names_def List.map_filter_simps)
next
  case (Cons l lines)
  define d' where "d' = (if prefix ''system default destination:'' l
                         then Some (trim (split_on CHR '':'' l ! 1)) else d)"
  define av' where "av' = av @ printer_names [l]"
  have s: "scan_line (d, av) l = (d', av')"
    by (simp add: scan_line_def d'_def av'_def printer_names_def List.map_filter_simps
          split: option.splits)
  have "foldl scan_line (d, av) (l # lines) = foldl scan_line (d', av') lines"
    by (simp only: foldl.simps s)
  also have "\<dots> = (if second_fields lines = [] then d' else Some (last (second_fields lines)),
                     av' @ printer_names lines)"
    by (rule Cons.IH)
  also have "\<dots> = (if second_fields (l # lines) = [] then d
                      else Some (last (second_fields (l # lines))),
                     av @ printer_names (l # lines))"
    by (simp add: d'_def av'_def second_fields_def printer_names_def List.map_filter_simps
          split: option.splits)
  finally show ?case .
qed

text \<open>
  \<open>detectPrinter\<close> for \<open>auto\<close>, without the loop: the last of the second fields when
  it is not empty, else the first printer listed, else the error.
\<close>

lemma detectPrinter_auto:
  "detectPrinter pf ''auto'' fls =
     (if exec_error (lpstat_pd pf fls) \<noteq> None then Inl (PrinterError ''No printers available'' None)
      else if second_fields (split_on CHR 0x0A (exec_stdout (lpstat_pd pf fls))) \<noteq> [] \<and>
              last (second_fields (split_on CHR 0x0A (exec_stdout (lpstat_pd pf fls)))) \<noteq> []
      then Inr (last (second_fields (split_on CHR 0x0A (exec_stdout (lpstat_pd pf fls)))))
      else if printer_names (split_on CHR 0x0A (exec_stdout (lpstat_pd pf fls))) \<noteq> []
      then Inr (hd (printer_names (split_on CHR 0x0A (exec_stdout (lpstat_pd pf fls)))))
      else Inl (PrinterError ''No printers found'' None))"
proof -
  obtain d av where f: "foldl scan_line (None, []) (split_on CHR 0x0A (exec_stdout (lpstat_pd pf fls))) = (d, av)"
    by (cases "foldl scan_line (None, []) (split_on CHR 0x0A (exec_stdout (lpstat_pd pf fls)))")
  from f scan_lines [of None "[]" "split_on CHR 0x0A (exec_stdout (lpstat_pd pf fls))"]
  have d: "d = (if second_fields (split_on CHR 0x0A (exec_stdout (lpstat_pd pf fls))) = [] then None
                else Some (last (second_fields (split_on CHR 0x0A (exec_stdout (lpstat_pd pf fls))))))"
    and av: "av = printer_names (split_on CHR 0x0A (exec_stdout (lpstat_pd pf fls)))"
    by simp_all
  show ?thesis
    unfolding detectPrinter_def Let_def lpstat_pd_def [symmetric] f
    by (simp add: d av truthy_def hd_conv_nth)
qed

lemma split_on_absent: "c \<notin> set s \<Longrightarrow> split_on c s = [s]"
  by (induction s) auto

lemma split_on_first: "c \<notin> set a \<Longrightarrow> split_on c (a @ c # b) = a # split_on c b"
  by (induction a) (auto split: list.splits)

lemma dropWhile_none: "s \<noteq> [] \<Longrightarrow> \<not> P (hd s) \<Longrightarrow> dropWhile P s = s"
  by (cases s) simp_all

lemma second_field_plain:
  assumes pre: "prefix ''system default destination:'' l"
      and c: "CHR '':'' \<notin> set (drop (length ''system default destination:'') l)"
  shows "split_on CHR '':'' l ! 1 = drop (length ''system default destination:'') l"
proof -
  obtain r where l: "l = ''system default destination:'' @ r"
    using pre by (auto simp: prefix_def)
  have r: "drop (length ''system default destination:'') l = r"
    unfolding l by simp
  have "l = ''system default destination'' @ CHR '':'' # r"
    unfolding l by simp
  then have "split_on CHR '':'' l = ''system default destination'' # split_on CHR '':'' r"
    by (simp only: split_on_first [of "CHR '':''" "''system default destination''"]) simp
  then show ?thesis using split_on_absent [of "CHR '':''" r] c unfolding r by simp
qed

lemma second_fields_plain:
  assumes "plain_defaults lines"
  shows "second_fields lines = default_names lines"
proof -
  have e: "trim (split_on CHR '':'' l ! 1) =
           trim (drop (length ''system default destination:'') l)"
    if "l \<in> set (filter (prefix ''system default destination:'') lines)" for l
  proof -
    from that have l: "l \<in> set lines" and pre: "prefix ''system default destination:'' l"
      by simp_all
    from assms l pre have "CHR '':'' \<notin> set (drop (length ''system default destination:'') l)"
      unfolding plain_defaults_def by blast
    with pre have "split_on CHR '':'' l ! 1 = drop (length ''system default destination:'') l"
      by (rule second_field_plain)
    then show ?thesis by (rule arg_cong)
  qed
  show ?thesis
    unfolding second_fields_def default_names_def by (rule map_cong [OF refl e])
qed

lemma detectPrinter_plain:
  assumes "exec_error (lpstat_pd pf fls) = None"
      and "plain_defaults (split_on CHR 0x0A (exec_stdout (lpstat_pd pf fls)))"
  shows "detectPrinter pf ''auto'' fls =
           resolve_auto (split_on CHR 0x0A (exec_stdout (lpstat_pd pf fls)))"
  using assms by (simp add: detectPrinter_auto second_fields_plain resolve_auto_def)

lemma trim_name:
  assumes "name_ok n"
  shows "trim (CHR '' '' # n) = n"
proof -
  have ne: "n \<noteq> []" and ns: "\<And>c. c \<in> set n \<Longrightarrow> \<not> is_space c"
    using assms by (auto simp: name_ok_def)
  have sp: "is_space CHR '' ''" by (simp add: is_space_def)
  have "\<not> is_space (hd n)" using ne ns by simp
  then have 1: "dropWhile is_space (CHR '' '' # n) = n"
    using sp ne by (simp add: dropWhile_none)
  have "hd (rev n) = last n" using ne by (simp add: hd_rev)
  then have "\<not> is_space (hd (rev n))" using ne ns by simp
  then have 2: "dropWhile is_space (rev n) = rev n" using ne by (simp add: dropWhile_none)
  show ?thesis unfolding trim_def 1 2 by simp
qed

lemma default_names_line:
  assumes "name_ok n"
  shows "default_names [default_line n] = [n]"
  using trim_name [OF assms] by (simp add: default_names_def default_line_def)

lemma match_printer_line:
  assumes "name_ok n"
  shows "match_printer (printer_line n rest) = Some n"
proof -
  have ne: "n \<noteq> []" and ns: "\<And>c. c \<in> set n \<Longrightarrow> \<not> is_space c"
    using assms by (auto simp: name_ok_def)
  have sp: "is_space CHR '' ''" by (simp add: is_space_def)
  have "\<not> is_space (hd n)" using ne ns by simp
  then have 1: "dropWhile is_space (n @ CHR '' '' # rest) = n @ CHR '' '' # rest"
    using ne by (cases n) simp_all
  have 2: "takeWhile (\<lambda>c. \<not> is_space c) (n @ CHR '' '' # rest) = n"
    using ns sp by (simp add: takeWhile_append2)
  have "match_printer_at (printer_line n rest) = Some n"
    using ne sp by (simp add: match_printer_at_def printer_line_def Let_def 1 2)
  then show ?thesis by (simp add: printer_line_def)
qed

lemma printer_names_line:
  assumes "name_ok n"
  shows "printer_names [printer_line n rest] = [n]"
proof -
  have "\<not> prefix ''system default destination:'' (printer_line n rest)"
    by (simp add: printer_line_def)
  moreover have "prefix ''printer '' (printer_line n rest)"
    by (simp add: printer_line_def)
  ultimately show ?thesis
    using match_printer_line [OF assms, of rest]
    by (simp add: printer_names_def List.map_filter_simps)
qed

text \<open>
  What holds of \<open>detectPrinter\<close> on every listing: a configured name other than \<open>auto\<close> is
  returned as it is; a failed query is the printer error "No printers available";
  otherwise, when no default destination has a colon in its name, the result is the
  default destination if the listing names one, else the first printer it enumerates, else
  the printer error "No printers found", which differs from the former. A default line and
  a printer line for a name yield that name.
\<close>

lemma detectPrinter_resolution:
  "(pname \<noteq> ''auto'' \<longrightarrow> detectPrinter pf pname fls = Inr pname) \<and>
   (exec_error (lpstat_pd pf fls) \<noteq> None \<longrightarrow>
      detectPrinter pf ''auto'' fls = Inl (PrinterError ''No printers available'' None)) \<and>
   (exec_error (lpstat_pd pf fls) = None \<and>
    plain_defaults (split_on CHR 0x0A (exec_stdout (lpstat_pd pf fls))) \<longrightarrow>
      detectPrinter pf ''auto'' fls =
        resolve_auto (split_on CHR 0x0A (exec_stdout (lpstat_pd pf fls)))) \<and>
   (default_names lines \<noteq> [] \<and> last (default_names lines) \<noteq> [] \<longrightarrow>
      resolve_auto lines = Inr (last (default_names lines))) \<and>
   (default_names lines = [] \<and> printer_names lines \<noteq> [] \<longrightarrow>
      resolve_auto lines = Inr (hd (printer_names lines))) \<and>
   (default_names lines = [] \<and> printer_names lines = [] \<longrightarrow>
      resolve_auto lines = Inl (PrinterError ''No printers found'' None)) \<and>
   (name_ok n \<longrightarrow>
      default_names [default_line n] = [n] \<and> printer_names [printer_line n rest] = [n]) \<and>
   PrinterError ''No printers available'' None \<noteq> PrinterError ''No printers found'' None"
proof -
  have 1: "pname \<noteq> ''auto'' \<longrightarrow> detectPrinter pf pname fls = Inr pname"
    by (simp add: detectPrinter_def)
  have 2: "exec_error (lpstat_pd pf fls) \<noteq> None \<longrightarrow>
      detectPrinter pf ''auto'' fls = Inl (PrinterError ''No printers available'' None)"
    by (simp add: detectPrinter_auto)
  have 3: "exec_error (lpstat_pd pf fls) = None \<and>
    plain_defaults (split_on CHR 0x0A (exec_stdout (lpstat_pd pf fls))) \<longrightarrow>
      detectPrinter pf ''auto'' fls =
        resolve_auto (split_on CHR 0x0A (exec_stdout (lpstat_pd pf fls)))"
    using detectPrinter_plain by blast
  have 4: "default_names lines \<noteq> [] \<and> last (default_names lines) \<noteq> [] \<longrightarrow>
      resolve_auto lines = Inr (last (default_names lines))"
    by (simp add: resolve_auto_def)
  have 5: "default_names lines = [] \<and> printer_names lines \<noteq> [] \<longrightarrow>
      resolve_auto lines = Inr (hd (printer_names lines))"
    by (simp add: resolve_auto_def)
  have 6: "default_names lines = [] \<and> printer_names lines = [] \<longrightarrow>
      resolve_auto lines = Inl (PrinterError ''No printers found'' None)"
    by (simp add: resolve_auto_def)
  have 7: "name_ok n \<longrightarrow>
      default_names [default_line n] = [n] \<and> printer_names [printer_line n rest] = [n]"
    using default_names_line printer_names_line by blast
  have 8: "PrinterError ''No printers available'' None \<noteq> PrinterError ''No printers found'' None"
    by simp
  show ?thesis using 1 2 3 4 5 6 7 8 by blast
qed

lemma detectPrinter_resolution_demo:
  "detectPrinter demo_platform ''Office_Printer'' Map.empty = Inr ''Office_Printer'' \<and>
   detectPrinter demo_platform ''auto'' Map.empty = Inr ''HP_LaserJet'' \<and>
   detectPrinter (demo_platform\<lparr>exec_shell := \<lambda>cmd fls. (failed_result ''lpstat: not found'', fls)\<rparr>)
     ''auto'' Map.empty = Inl (PrinterError ''No printers available'' None) \<and>
   resolve_auto [''printer Canon_MG3600 is idle.'', ''printer HP_LaserJet is idle.'',
                 ''no system default destination''] = Inr ''Canon_MG3600'' \<and>
   resolve_auto [''no system default destination''] = Inl (PrinterError ''No printers found'' None) \<and>
   default_names [default_line ''HP_LaserJet''] = [''HP_LaserJet'']"
proof -
  define broken where
    "broken = demo_platform\<lparr>exec_shell := \<lambda>cmd fls. (failed_result ''lpstat: not found'', fls)\<rparr>"
  define l1 where "l1 = split_on CHR 0x0A (exec_stdout (lpstat_pd demo_platform Map.empty))"
  define l2 where "l2 = [''printer Canon_MG3600 is idle.'', ''printer HP_LaserJet is idle.'',
                 ''no system default destination'']"
  define l3 where "l3 = [''no system default destination'']"
  have a: "''Office_Printer'' \<noteq> ''auto''" by simp
  have b: "exec_error (lpstat_pd demo_platform Map.empty) = None"
    "exec_error (lpstat_pd broken Map.empty) \<noteq> None"
    by (simp_all add: lpstat_pd_def demo_platform_def ok_result_def failed_result_def broken_def)
  have l1: "l1 = [''printer Canon_MG3600 is idle.  enabled since Mon 03 Nov 2025'',
                  ''printer HP_LaserJet is idle.  enabled since Mon 03 Nov 2025'',
                  ''system default destination: HP_LaserJet'', '''']"
    unfolding l1_def by code_simp
  have pl: "plain_defaults l1"
    unfolding l1 plain_defaults_def by simp
  have c: "default_names l1 \<noteq> []" "last (default_names l1) \<noteq> []"
    "last (default_names l1) = ''HP_LaserJet''"
    unfolding l1_def by code_simp+
  have d: "default_names l2 = []" "printer_names l2 \<noteq> []" "hd (printer_names l2) = ''Canon_MG3600''"
    unfolding l2_def by code_simp+
  have e: "default_names l3 = []" "printer_names l3 = []"
    unfolding l3_def by code_simp+
  have f: "name_ok ''HP_LaserJet''" by code_simp
  note t1 = detectPrinter_resolution
               [of "''Office_Printer''" demo_platform Map.empty l1 "''HP_LaserJet''" "[]"]
  note t2 = detectPrinter_resolution [of "''auto''" broken Map.empty l2 "''HP_LaserJet''" "[]"]
  note t3 = detectPrinter_resolution [of "''auto''" broken Map.empty l3 "''HP_LaserJet''" "[]"]
  have r1: "detectPrinter demo_platform ''Office_Printer'' Map.empty = Inr ''Office_Printer''"
    using t1 a by blast
  have "detectPrinter demo_platform ''auto'' Map.empty = resolve_auto l1"
    using t1 b(1) pl unfolding l1_def by blast
  moreover have "resolve_auto l1 = Inr (last (default_names l1))" using t1 c(1,2) by blast
  ultimately have r2: "detectPrinter demo_platform ''auto'' Map.empty = Inr ''HP_LaserJet''"
    using c(3) by simp
  have r3: "detectPrinter broken ''auto'' Map.empty = Inl (PrinterError ''No printers available'' None)"
    using t2 b(2) by blast
  have "resolve_auto l2 = Inr (hd (printer_names l2))" using t2 d(1,2) by blast
  then have r4: "resolve_auto l2 = Inr ''Canon_MG3600''" using d(3) by simp
  have r5: "resolve_auto l3 = Inl (PrinterError ''No printers found'' None)" using t3 e by blast
  have r6: "default_names [default_line ''HP_LaserJet''] = [''HP_LaserJet'']" using t1 f by blast
  show ?thesis using r1 r2 r3 r4 r5 r6 unfolding l2_def l3_def broken_def by blast
qed

text \<open>
  Claim C5 does not hold of the code: \<open>detectPrinter\<close> does not return the default
  destination when its name has a colon. CUPS lists the printer \<open>Office:1\<close> and names it
  as the default destination; \<open>line.split(':')[1]\<close> keeps only what stands between the
  first and the second colon of the line, so the promise is resolved with \<open>Office\<close>,
  which is no destination of the listing. The resolution as the specification words it
  gives \<open>Office:1\<close>.
\<close>

theorem detectPrinter_cuts_default_at_colon:
  "detectPrinter colon_platform ''auto'' Map.empty = Inr ''Office'' \<and>
   exec_error (lpstat_pd colon_platform Map.empty) = None \<and>
   default_names (split_on CHR 0x0A (exec_stdout (lpstat_pd colon_platform Map.empty))) =
     [''Office:1''] \<and>
   printer_names (split_on CHR 0x0A (exec_stdout (lpstat_pd colon_platform Map.empty))) =
     [''Office:1''] \<and>
   resolve_auto (split_on CHR 0x0A (exec_stdout (lpstat_pd colon_platform Map.empty))) =
     Inr ''Office:1''"
proof -
  have 1: "detectPrinter colon_platform ''auto'' Map.empty = Inr ''Office''"
    by code_simp
  have 2: "exec_error (lpstat_pd colon_platform Map.empty) = None"
    by code_simp
  have 3: "default_names (split_on CHR 0x0A (exec_stdout (lpstat_pd colon_platform Map.empty))) =
     [''Office:1'']"
    by code_simp
  have 4: "printer_names (split_on CHR 0x0A (exec_stdout (lpstat_pd colon_platform Map.empty))) =
     [''Office:1'']"
    by code_simp
  have 5: "resolve_auto (split_on CHR 0x0A (exec_stdout (lpstat_pd colon_platform Map.empty))) =
     Inr ''Office:1''"
    by code_simp
  show ?thesis using 1 2 3 4 5 by blast
qed

section \<open>The page verifier\<close>




lemma emit_files [simp]: "files (emit_if_connected pf ev w) = files w"
  by (simp add: emit_if_connected_def Let_def)

lemma emit_timers [simp]: "timers (emit_if_connected pf ev w) = timers w"
  by (simp add: emit_if_connected_def Let_def)

lemma emit_emitted:
  "emitted (emit_if_connected pf ev w) =
     emitted w @ (if connected_at pf (socket_reads w) then [ev] else [])"
  by (simp add: emit_if_connected_def Let_def)

lemma emit_reads [simp]: "socket_reads (emit_if_connected pf ev w) = Suc (socket_reads w)"
  by (simp add: emit_if_connected_def Let_def)






section \<open>Errors at the job boundary\<close>

lemma pending_get_hd: "m \<noteq> [] \<Longrightarrow> pending_get m (fst (hd m)) = Some (snd (hd m))"
  by (cases m) auto

lemma finally_fields [simp]:
  "currentJob (processJob_finally jobId w) = None"
  "pendingJobs (processJob_finally jobId w) = pending_delete jobId (pendingJobs w)"
  "emitted (processJob_finally jobId w) = emitted w"
  "files (processJob_finally jobId w) = files w"
  "timers (processJob_finally jobId w) = timers w"
  by (simp_all add: processJob_finally_def)

lemma processJob_unfold:
  assumes "pending_get (pendingJobs w) jobId = Some jb"
  shows "processJob pf jobId w =
           (let w1 = processJob_finally jobId
                       (processJob_settle pf jobId jb (w\<lparr>currentJob := Some jobId\<rparr>))
            in if pendingJobs w1 = [] then w1
               else processJob pf (fst (hd (pendingJobs w1))) w1)"
  using assms by (subst processJob.simps) (simp add: Let_def)

lemma processJob_drains:
  "pending_get (pendingJobs w) jobId = Some jb \<Longrightarrow>
   pendingJobs (processJob pf jobId w) = [] \<and> currentJob (processJob pf jobId w) = None"
proof (induction pf jobId w arbitrary: jb rule: processJob.induct)
  case (1 pf jobId w)
  define w1 where "w1 = processJob_finally jobId
                       (processJob_settle pf jobId jb (w\<lparr>currentJob := Some jobId\<rparr>))"
  have u: "processJob pf jobId w =
             (if pendingJobs w1 = [] then w1 else processJob pf (fst (hd (pendingJobs w1))) w1)"
    using processJob_unfold [OF "1.prems", of pf] by (simp add: w1_def Let_def)
  show ?case
  proof (cases "pendingJobs w1 = []")
    case True
    then show ?thesis using u by (simp add: w1_def)
  next
    case False
    then have g: "pending_get (pendingJobs w1) (fst (hd (pendingJobs w1))) = Some (snd (hd (pendingJobs w1)))"
      by (rule pending_get_hd)
    have "pendingJobs (processJob pf (fst (hd (pendingJobs w1))) w1) = [] \<and>
          currentJob (processJob pf (fst (hd (pendingJobs w1))) w1) = None"
      using "1.IH" [OF "1.prems" w1_def _ g] False by simp
    then show ?thesis using u False by simp
  qed
qed

lemma convert_emitted:
  "emitted (snd (processJob_convert pf jobId jb p t w)) = emitted w"
  by (simp add: processJob_convert_def Let_def split: prod.splits sum.splits)

lemma convert_emitted_eq:
  "processJob_convert pf jobId jb p t w = (r, w') \<Longrightarrow> emitted w' = emitted w"
  using convert_emitted [of pf jobId jb p t w] by simp

lemma try_emitted: "prefix (emitted w) (emitted (snd (processJob_try pf jobId jb w)))"
  by (auto simp: processJob_try_def Let_def emit_emitted
           split: prod.splits sum.splits dest!: convert_emitted_eq)

lemma settle_emitted: "prefix (emitted w) (emitted (processJob_settle pf jobId jb w))"
  using try_emitted [of w pf jobId jb]
  by (auto simp: processJob_settle_def emit_emitted split: prod.splits sum.splits
           intro: prefix_order.trans)

lemma processJob_emitted: "prefix (emitted w) (emitted (processJob pf jobId w))"
proof (induction pf jobId w rule: processJob.induct)
  case (1 pf jobId w)
  show ?case
  proof (cases "pending_get (pendingJobs w) jobId")
    case None
    then show ?thesis by (subst processJob.simps) simp
  next
    case (Some jb)
    define w1 where "w1 = processJob_finally jobId
                       (processJob_settle pf jobId jb (w\<lparr>currentJob := Some jobId\<rparr>))"
    have u: "processJob pf jobId w =
             (if pendingJobs w1 = [] then w1 else processJob pf (fst (hd (pendingJobs w1))) w1)"
      using processJob_unfold [OF Some, of pf] by (simp add: w1_def Let_def)
    have p1: "prefix (emitted w) (emitted w1)"
      using settle_emitted [of "w\<lparr>currentJob := Some jobId\<rparr>" pf jobId jb] by (simp add: w1_def)
    show ?thesis
    proof (cases "pendingJobs w1 = []")
      case True
      then show ?thesis using u p1 by simp
    next
      case False
      have "prefix (emitted w1) (emitted (processJob pf (fst (hd (pendingJobs w1))) w1))"
        using "1.IH" [OF Some w1_def] False by simp
      then show ?thesis using u p1 False by (auto intro: prefix_order.trans)
    qed
  qed
qed

text \<open>
  Claim C8. When the \<open>try\<close> block of a pending job throws \<open>e\<close>, the \<open>catch\<close> block
  turns it into \<open>print_complete\<close> with \<open>success: false\<close> and the message of \<open>e\<close>,
  emitted when the socket is connected, and this event is among those \<open>processJob\<close> has
  emitted when it returns. The \<open>finally\<close> block clears the current job and removes
  the job from the map, and \<open>processJob\<close> goes on with the job that is then first, if
  there is one; when it returns, no job is pending and none is current.
\<close>

theorem processJob_error_contained:
  assumes "pending_get (pendingJobs w) jobId = Some jb"
      and "fst (processJob_try pf jobId jb (w\<lparr>currentJob := Some jobId\<rparr>)) = Inl e"
      and "w' = snd (processJob_try pf jobId jb (w\<lparr>currentJob := Some jobId\<rparr>))"
      and "w1 = processJob_finally jobId
                  (emit_if_connected pf (PrintComplete jobId False None (Some (error_message e))) w')"
  shows "processJob_settle pf jobId jb (w\<lparr>currentJob := Some jobId\<rparr>) =
           emit_if_connected pf (PrintComplete jobId False None (Some (error_message e))) w' \<and>
         (connected_at pf (socket_reads w') \<longrightarrow>
            PrintComplete jobId False None (Some (error_message e))
              \<in> set (emitted (processJob pf jobId w))) \<and>
         currentJob w1 = None \<and>
         pendingJobs w1 = pending_delete jobId (pendingJobs w) \<and>
         processJob pf jobId w =
           (if pendingJobs w1 = [] then w1 else processJob pf (fst (hd (pendingJobs w1))) w1) \<and>
         pendingJobs (processJob pf jobId w) = [] \<and>
         currentJob (processJob pf jobId w) = None"
proof -
  have t: "processJob_try pf jobId jb (w\<lparr>currentJob := Some jobId\<rparr>) = (Inl e, w')"
    using assms(2,3) by (simp add: prod_eq_iff)
  have s: "processJob_settle pf jobId jb (w\<lparr>currentJob := Some jobId\<rparr>) =
           emit_if_connected pf (PrintComplete jobId False None (Some (error_message e))) w'"
    by (simp add: processJob_settle_def t)
  have u: "processJob pf jobId w =
           (if pendingJobs w1 = [] then w1 else processJob pf (fst (hd (pendingJobs w1))) w1)"
    using processJob_unfold [OF assms(1), of pf] by (simp add: s assms(4) Let_def)
  have p: "pendingJobs w1 = pending_delete jobId (pendingJobs w)"
    using try_pending [of pf jobId jb "w\<lparr>currentJob := Some jobId\<rparr>"]
    by (simp add: assms(4) emit_pending t)
  have ev: "connected_at pf (socket_reads w') \<longrightarrow>
            PrintComplete jobId False None (Some (error_message e))
              \<in> set (emitted (processJob pf jobId w))"
  proof
    assume c: "connected_at pf (socket_reads w')"
    then have "PrintComplete jobId False None (Some (error_message e)) \<in> set (emitted w1)"
      by (simp add: assms(4) emit_emitted)
    moreover have "prefix (emitted w1) (emitted (processJob pf jobId w))"
      using u processJob_emitted [of w1 pf "fst (hd (pendingJobs w1))"] by simp
    ultimately show "PrintComplete jobId False None (Some (error_message e))
              \<in> set (emitted (processJob pf jobId w))"
      using set_mono_prefix by blast
  qed
  show ?thesis
    using s ev u p processJob_drains [OF assms(1), of pf] by (simp add: assms(4))
qed

theorem processJob_error_contained_witness:
  "pending_get (pendingJobs (queued [gif_job, report_job])) ''j3'' = Some gif_job \<and>
   fst (processJob_try demo_platform ''j3'' gif_job
          ((queued [gif_job, report_job])\<lparr>currentJob := Some ''j3''\<rparr>)) =
     Inl (JobError ''Unsupported file type: unknown'' ''j3'') \<and>
   PrintComplete ''j3'' False None (Some ''Unsupported file type: unknown'')
     \<in> set (emitted (processJob demo_platform ''j3'' (queued [gif_job, report_job]))) \<and>
   pendingJobs (processJob demo_platform ''j3'' (queued [gif_job, report_job])) = [] \<and>
   currentJob (processJob demo_platform ''j3'' (queued [gif_job, report_job])) = None \<and>
   emitted (processJob demo_platform ''j3'' (queued [gif_job, report_job])) =
     [JobReceived ''j3'', PrintComplete ''j3'' False None (Some ''Unsupported file type: unknown''),
      JobReceived ''j1'', PrintStarted ''j1'', PrintComplete ''j1'' True (Some 3) None]"
proof -
  define w where "w = queued [gif_job, report_job]"
  have h1: "pending_get (pendingJobs w) ''j3'' = Some gif_job"
    unfolding w_def by code_simp
  have h2: "fst (processJob_try demo_platform ''j3'' gif_job (w\<lparr>currentJob := Some ''j3''\<rparr>)) =
              Inl (JobError ''Unsupported file type: unknown'' ''j3'')"
    unfolding w_def by code_simp
  have h3: "connected_at demo_platform n" for n by (simp add: demo_platform_def)
  have h4: "emitted (processJob demo_platform ''j3'' w) =
     [JobReceived ''j3'', PrintComplete ''j3'' False None (Some ''Unsupported file type: unknown''),
      JobReceived ''j1'', PrintStarted ''j1'', PrintComplete ''j1'' True (Some 3) None]"
    unfolding w_def by code_simp
  note t = processJob_error_contained [OF h1 h2 refl refl]
  have "connected_at demo_platform
          (socket_reads (snd (processJob_try demo_platform ''j3'' gif_job (w\<lparr>currentJob := Some ''j3''\<rparr>))))
        \<longrightarrow> PrintComplete ''j3'' False None
              (Some (error_message (JobError ''Unsupported file type: unknown'' ''j3'')))
            \<in> set (emitted (processJob demo_platform ''j3'' w))"
    using t by blast
  then have m: "PrintComplete ''j3'' False None (Some ''Unsupported file type: unknown'')
                  \<in> set (emitted (processJob demo_platform ''j3'' w))"
    using h3 by simp
  have d: "pendingJobs (processJob demo_platform ''j3'' w) = []"
    "currentJob (processJob demo_platform ''j3'' w) = None"
    using t by blast+
  show ?thesis
    using h1 h2 m d h4 unfolding w_def by blast
qed

section \<open>Cleanup of the job files\<close>

text \<open>
  A job that succeeds leaves one timer of 5000 ms behind, for its printable path and its
  working path; a job that fails leaves none. Before a timer is due nothing is deleted,
  and its callback deletes the two paths and nothing else (when unlinking does not fail).
\<close>

lemma convert_timers:
  "processJob_convert pf jobId jb p t w = (r, w') \<Longrightarrow> timers w' = timers w"
  by (auto simp: processJob_convert_def Let_def split: prod.splits sum.splits if_splits)

lemma try_failure_no_timer:
  "processJob_try pf jobId jb w = (Inl e, w') \<Longrightarrow> timers w' = timers w"
  by (auto simp: processJob_try_def Let_def split: prod.splits sum.splits dest!: convert_timers)

lemma try_success_timer:
  "processJob_try pf jobId jb w = (Inr u, w') \<Longrightarrow>
   \<exists>finalPdfPath. timers w' =
      timers w @ [Cleanup 5000 finalPdfPath (path_join pf tempDir (jobId @ ''_'' @ filename jb))]"
  by (auto simp: processJob_try_def Let_def split: prod.splits sum.splits dest!: convert_timers)

lemma elapse_early:
  "\<forall>t \<in> set (timers w). \<not> timer_due d t \<Longrightarrow> files (elapse pf d w) = files w"
  by (simp add: elapse_def filter_False)

lemma cleanup_callback_exact:
  "unlink_error pf a = None \<Longrightarrow> unlink_error pf b = None \<Longrightarrow>
   cleanup_callback pf a b fls = fls |` (- {a, b})"
  by (auto simp: cleanup_callback_def unlinkSync_def existsSync_def restrict_map_def fun_eq_iff)

text \<open>
  Claim C3, on a job that fails. A job for \<open>photo.gif\<close> is of unknown type: its file is
  written, the job fails and \<open>print_complete\<close> with \<open>success: false\<close> is emitted. When
  \<open>processJob\<close> has returned, the file is still there and no timer is pending, so that
  it is still there an hour later.
\<close>

theorem failed_job_keeps_its_file:
  "files (processJob demo_platform ''j3'' (queued [gif_job])) ''print-queue/j3_photo.gif''
     = Some ''GIF89a'' \<and>
   timers (processJob demo_platform ''j3'' (queued [gif_job])) = [] \<and>
   emitted (processJob demo_platform ''j3'' (queued [gif_job])) =
     [JobReceived ''j3'', PrintComplete ''j3'' False None (Some ''Unsupported file type: unknown'')] \<and>
   pendingJobs (processJob demo_platform ''j3'' (queued [gif_job])) = [] \<and>
   files (elapse demo_platform 3600000 (processJob demo_platform ''j3'' (queued [gif_job])))
     ''print-queue/j3_photo.gif'' = Some ''GIF89a''"
proof -
  have 1: "files (processJob demo_platform ''j3'' (queued [gif_job])) ''print-queue/j3_photo.gif''
     = Some ''GIF89a''"
    by code_simp
  have 2: "timers (processJob demo_platform ''j3'' (queued [gif_job])) = []"
    by code_simp
  have 3: "emitted (processJob demo_platform ''j3'' (queued [gif_job])) =
     [JobReceived ''j3'', PrintComplete ''j3'' False None (Some ''Unsupported file type: unknown'')]"
    by code_simp
  have 4: "pendingJobs (processJob demo_platform ''j3'' (queued [gif_job])) = []"
    by (simp add: processJob_drains [of _ _ gif_job] queued_def gif_job_def)
  have 5: "files (elapse demo_platform 3600000 (processJob demo_platform ''j3'' (queued [gif_job])))
     ''print-queue/j3_photo.gif'' = Some ''GIF89a''"
    using 1 2 by (simp add: elapse_def)
  show ?thesis using 1 2 3 4 5 by simp
qed

section \<open>One job at a time, in the order of arrival\<close>

text \<open>
  The turns of a call of \<open>processJob\<close> put together are its \<open>try\<close> block: what the call
  does up to its first \<open>await\<close>, then the conversion, then the print.
\<close>

lemma convertImageToPDF_parts:
  "convertImageToPDF pf p fls =
     (case image_rejected fls p of Some e \<Rightarrow> (Inl e, fls) | None \<Rightarrow> image_tools pf p fls)"
  by (simp add: convertImageToPDF_def image_rejected_def image_tools_def Let_def)

lemma processJob_first_waits:
  "processJob_first pf jobId jb w = (Inr a, w1) \<Longrightarrow>
   \<exists>cv. a = Conversion cv (path_join pf tempDir (jobId @ ''_'' @ filename jb))"
  by (auto simp: processJob_first_def Let_def split: sum.splits if_splits)

lemma processJob_first_thrown:
  "processJob_first pf jobId jb w = (Inl e, w1) \<Longrightarrow> processJob_try pf jobId jb w = (Inl e, w1)"
  by (cases "getFileType (filename jb)")
     (auto simp: processJob_first_def processJob_try_def processJob_convert_def Let_def
           split: sum.splits if_splits)

lemma processJob_first_convert:
  "processJob_first pf jobId jb w = (Inr (Conversion cv p), w1) \<Longrightarrow>
   conversion_outcome pf cv p (files w1) = (r, f2) \<Longrightarrow>
   \<exists>bytes. base64_decode pf (file_data jb) = Inr bytes \<and>
     p = path_join pf tempDir (jobId @ ''_'' @ filename jb) \<and>
     write_error pf p = None \<and>
     processJob_convert pf jobId jb p (getFileType (filename jb))
       (emit_if_connected pf (JobReceived jobId) (w\<lparr>files := (files w)(p \<mapsto> bytes)\<rparr>)) =
       (r, w1\<lparr>files := f2\<rparr>)"
  by (cases "getFileType (filename jb)")
     (auto simp: processJob_first_def processJob_convert_def writeFileSync_def Let_def
           convertImageToPDF_parts
           split: sum.splits option.splits if_splits prod.splits)

lemma processJob_try_in_turns:
  assumes f: "processJob_first pf jobId jb w = (Inr (Conversion cv p), w1)"
      and c: "conversion_outcome pf cv p (files w1) = (r, f2)"
  shows "processJob_try pf jobId jb w =
     (case r of
        Inl e \<Rightarrow> (Inl e, w1\<lparr>files := f2\<rparr>)
      | Inr finalPdfPath \<Rightarrow>
          (let w3 = emit_if_connected pf (PrintStarted jobId) (w1\<lparr>files := f2\<rparr>);
               (pr, files4) = printDocument pf (printerName w3) finalPdfPath (pages jb) (files w3);
               w4 = w3\<lparr>files := files4\<rparr>
           in case pr of
                Inl e \<Rightarrow> (Inl e, w4)
              | Inr pages_printed \<Rightarrow>
                  (let w5 = emit_if_connected pf (PrintComplete jobId True pages_printed None) w4
                   in (Inr (), w5\<lparr>timers := timers w5 @ [Cleanup 5000 finalPdfPath p]\<rparr>))))"
proof -
  from processJob_first_convert [OF f c] obtain bytes where
    d: "base64_decode pf (file_data jb) = Inr bytes"
    and p: "p = path_join pf tempDir (jobId @ ''_'' @ filename jb)"
    and wr: "write_error pf p = None"
    and cv: "processJob_convert pf jobId jb p (getFileType (filename jb))
       (emit_if_connected pf (JobReceived jobId) (w\<lparr>files := (files w)(p \<mapsto> bytes)\<rparr>)) =
       (r, w1\<lparr>files := f2\<rparr>)"
    by blast
  show ?thesis
    using d wr cv unfolding p
    by (simp add: processJob_try_def writeFileSync_def Let_def split: sum.splits prod.splits)
qed

text \<open>
  The invariant. A call of \<open>processJob\<close> for the first key of the map, made when no
  call waits, establishes it, whatever number of jobs fail before their first \<open>await\<close>;
  so does the \<open>finally\<close> block of the one call that waits. Both take keys from the
  front of the map only.
\<close>

lemma emit_current [simp]: "currentJob (emit_if_connected pf ev w) = currentJob w"
  by (simp add: emit_if_connected_def Let_def)

lemma first_current: "currentJob (snd (processJob_first pf jobId jb w)) = currentJob w"
  by (simp add: processJob_first_def Let_def split: sum.splits)

lemma first_fields:
  "processJob_first pf jobId jb w = (r, w1) \<Longrightarrow>
   pendingJobs w1 = pendingJobs w \<and> currentJob w1 = currentJob w"
  using first_pending [of pf jobId jb w] first_current [of pf jobId jb w] by simp

lemma catch_current [simp]: "currentJob (processJob_catch pf jobId e w) = currentJob w"
  by (simp add: processJob_catch_def)

lemma pending_delete_hd: "m \<noteq> [] \<Longrightarrow> pending_delete (fst (hd m)) m = tl m"
  by (cases m) auto

lemma call_result:
  assumes "distinct (pending_keys (the_world c))" "[] \<notin> set (pending_keys (the_world c))"
      and "running c = []" "pendingJobs (the_world c) \<noteq> []"
  shows "loop_inv (processJob_call pf (fst (hd (pendingJobs (the_world c)))) c) \<and>
         (\<exists>k. pending_keys (the_world (processJob_call pf (fst (hd (pendingJobs (the_world c)))) c)) =
               drop k (pending_keys (the_world c)))"
  using assms
proof (induction "length (pendingJobs (the_world c))" arbitrary: c rule: less_induct)
  case less
  let ?w = "the_world c"
  let ?j = "fst (hd (pendingJobs ?w))"
  let ?jb = "snd (hd (pendingJobs ?w))"
  have get: "pending_get (pendingJobs ?w) ?j = Some ?jb"
    using less.prems(4) by (rule pending_get_hd)
  have hdk: "hd (pending_keys ?w) = ?j" "pending_keys ?w \<noteq> []"
    using less.prems(4) by (simp_all add: pending_keys_def hd_map)
  obtain r w1 where f: "processJob_first pf ?j ?jb (?w\<lparr>currentJob := Some ?j\<rparr>) = (r, w1)"
    by (cases "processJob_first pf ?j ?jb (?w\<lparr>currentJob := Some ?j\<rparr>)")
  from first_fields [OF f] have w1: "pendingJobs w1 = pendingJobs ?w" "currentJob w1 = Some ?j"
    by simp_all
  show ?case
  proof (cases r)
    case (Inr a)
    have e: "processJob_call pf ?j c = c\<lparr>the_world := w1, running := running c @ [(?j, ?jb, a)]\<rparr>"
      by (subst processJob_call.simps) (simp add: get f Inr)
    have k: "pending_keys w1 = pending_keys ?w" using w1 by (simp add: pending_keys_def)
    have "loop_inv (processJob_call pf ?j c)"
      unfolding e loop_inv_def using less.prems hdk w1 k by simp
    moreover have "pending_keys (the_world (processJob_call pf ?j c)) = drop 0 (pending_keys ?w)"
      unfolding e using k by simp
    ultimately show ?thesis by blast
  next
    case (Inl e)
    define w2 where "w2 = processJob_finally ?j (processJob_catch pf ?j e w1)"
    define c2 where "c2 = c\<lparr>the_world := w2\<rparr>"
    have p2: "pendingJobs w2 = tl (pendingJobs ?w)"
      using less.prems(4) by (simp add: w2_def processJob_finally_def catch_pending w1 pending_delete_hd)
    have k2: "pending_keys w2 = tl (pending_keys ?w)"
      using p2 by (simp add: pending_keys_def map_tl)
    have cur2: "currentJob w2 = None" by (simp add: w2_def processJob_finally_def)
    have ev: "processJob_call pf ?j c =
                (if length (pendingJobs w2) > 0 then processJob_call pf (fst (hd (pendingJobs w2))) c2
                 else c2)"
      by (subst processJob_call.simps) (simp add: get f Inl w2_def c2_def Let_def)
    have sub: "set (tl (pending_keys ?w)) \<subseteq> set (pending_keys ?w)"
      by (cases "pending_keys ?w") auto
    have d2: "distinct (pending_keys (the_world c2))" "[] \<notin> set (pending_keys (the_world c2))"
      "running c2 = []"
      using less.prems k2 sub by (auto simp: c2_def distinct_tl)
    show ?thesis
    proof (cases "pendingJobs w2 = []")
      case True
      then have "processJob_call pf ?j c = c2" using ev by simp
      moreover have "loop_inv c2"
        using True cur2 less.prems(3) by (simp add: loop_inv_def c2_def pending_keys_def)
      moreover have "pending_keys (the_world c2) = drop 1 (pending_keys ?w)"
        using k2 by (simp add: c2_def drop_Suc)
      ultimately show ?thesis by metis
    next
      case False
      then have e2: "processJob_call pf ?j c = processJob_call pf (fst (hd (pendingJobs (the_world c2)))) c2"
        using ev by (simp add: c2_def)
      have lt: "length (pendingJobs (the_world c2)) < length (pendingJobs ?w)"
        using p2 less.prems(4) by (simp add: c2_def)
      have ne2: "pendingJobs (the_world c2) \<noteq> []" using False by (simp add: c2_def)
      from less.hyps [OF lt d2 ne2]
      obtain k where i: "loop_inv (processJob_call pf (fst (hd (pendingJobs (the_world c2)))) c2)"
        and kk: "pending_keys (the_world (processJob_call pf (fst (hd (pendingJobs (the_world c2)))) c2)) =
                 drop k (pending_keys (the_world c2))"
        by blast
      have "drop k (pending_keys (the_world c2)) = drop (Suc k) (pending_keys ?w)"
        using k2 by (simp add: c2_def drop_Suc)
      then show ?thesis using i kk e2 by metis
    qed
  qed
qed

lemma leave_result:
  assumes "distinct (pending_keys w)" "[] \<notin> set (pending_keys w)"
      and "running c = []" "pendingJobs w \<noteq> []"
  shows "loop_inv (processJob_leave pf (fst (hd (pendingJobs w))) w c) \<and>
         (\<exists>k. pending_keys (the_world (processJob_leave pf (fst (hd (pendingJobs w))) w c)) =
               drop k (pending_keys w))"
proof -
  let ?j = "fst (hd (pendingJobs w))"
  define w2 where "w2 = processJob_finally ?j w"
  define c2 where "c2 = c\<lparr>the_world := w2\<rparr>"
  have p2: "pendingJobs w2 = tl (pendingJobs w)"
    using assms(4) by (simp add: w2_def processJob_finally_def pending_delete_hd)
  have k2: "pending_keys w2 = tl (pending_keys w)"
    using p2 by (simp add: pending_keys_def map_tl)
  have cur2: "currentJob w2 = None" by (simp add: w2_def processJob_finally_def)
  have ev: "processJob_leave pf ?j w c =
              (if length (pendingJobs w2) > 0 then processJob_call pf (fst (hd (pendingJobs w2))) c2
               else c2)"
    by (simp add: processJob_leave_def w2_def c2_def Let_def)
  have sub: "set (tl (pending_keys w)) \<subseteq> set (pending_keys w)"
    by (cases "pending_keys w") auto
  have d2: "distinct (pending_keys (the_world c2))" "[] \<notin> set (pending_keys (the_world c2))"
    "running c2 = []"
    using assms k2 sub by (auto simp: c2_def distinct_tl)
  show ?thesis
  proof (cases "pendingJobs w2 = []")
    case True
    then have "processJob_leave pf ?j w c = c2" using ev by simp
    moreover have "loop_inv c2"
      using True cur2 assms(3) by (simp add: loop_inv_def c2_def pending_keys_def)
    moreover have "pending_keys (the_world c2) = drop 1 (pending_keys w)"
      using k2 by (simp add: c2_def drop_Suc)
    ultimately show ?thesis by metis
  next
    case False
    then have e2: "processJob_leave pf ?j w c =
                     processJob_call pf (fst (hd (pendingJobs (the_world c2)))) c2"
      using ev by (simp add: c2_def)
    have ne2: "pendingJobs (the_world c2) \<noteq> []" using False by (simp add: c2_def)
    from call_result [OF d2 ne2]
    obtain k where i: "loop_inv (processJob_call pf (fst (hd (pendingJobs (the_world c2)))) c2)"
      and kk: "pending_keys (the_world (processJob_call pf (fst (hd (pendingJobs (the_world c2)))) c2)) =
               drop k (pending_keys (the_world c2))"
      by blast
    have "drop k (pending_keys (the_world c2)) = drop (Suc k) (pending_keys w)"
      using k2 by (simp add: c2_def drop_Suc)
    then show ?thesis using i kk e2 by metis
  qed
qed

lemma pending_set_keys:
  "map fst (pending_set k v m) = (if k \<in> set (map fst m) then map fst m else map fst m @ [k])"
  by (induction m) force+

lemma deliver_keys:
  "\<exists>new. map fst (foldl (\<lambda>m jb. pending_set (job_id jb) jb m) m jobs) = map fst m @ new \<and>
         set new \<subseteq> set (map job_id jobs) \<and>
         (distinct (map fst m) \<longrightarrow> distinct (map fst m @ new)) \<and>
         (jobs \<noteq> [] \<longrightarrow> map fst m @ new \<noteq> [])"
proof (induction jobs arbitrary: m)
  case Nil
  show ?case by simp
next
  case (Cons jb jobs)
  define m1 where "m1 = pending_set (job_id jb) jb m"
  obtain new where n: "map fst (foldl (\<lambda>m jb. pending_set (job_id jb) jb m) m1 jobs) = map fst m1 @ new"
      "set new \<subseteq> set (map job_id jobs)" "distinct (map fst m1) \<longrightarrow> distinct (map fst m1 @ new)"
    using Cons.IH [of m1] by blast
  show ?case
  proof (cases "job_id jb \<in> set (map fst m)")
    case True
    then have k: "map fst m1 = map fst m" by (simp add: m1_def pending_set_keys)
    have ne: "map fst m \<noteq> []" using True by auto
    show ?thesis
      apply (rule exI [of _ new])
      using n k ne by (auto simp: m1_def [symmetric])
  next
    case False
    then have k: "map fst m1 = map fst m @ [job_id jb]" by (simp add: m1_def pending_set_keys)
    show ?thesis
      apply (rule exI [of _ "job_id jb # new"])
      using n k False by (auto simp: m1_def [symmetric])
  qed
qed

lemma poll_deliver_keys:
  "\<exists>new. pending_keys (poll_deliver jobs w) = pending_keys w @ new \<and>
         set new \<subseteq> set (map job_id jobs) \<and>
         (distinct (pending_keys w) \<longrightarrow> distinct (pending_keys w @ new)) \<and>
         (jobs \<noteq> [] \<longrightarrow> pending_keys w @ new \<noteq> [])"
  using deliver_keys [of "pendingJobs w" jobs] by (simp add: pending_keys_def poll_deliver_def)

lemma poll_deliver_current [simp]: "currentJob (poll_deliver jobs w) = currentJob w"
  by (simp add: poll_deliver_def)

lemma inv_cases:
  assumes "loop_inv c"
  obtains (idle) "running c = []" "currentJob (the_world c) = None" "pendingJobs (the_world c) = []"
  | (busy) jb a where "running c = [(fst (hd (pendingJobs (the_world c))), jb, a)]"
      "currentJob (the_world c) = Some (fst (hd (pendingJobs (the_world c))))"
      "pendingJobs (the_world c) \<noteq> []" "fst (hd (pendingJobs (the_world c))) \<noteq> []"
proof -
  from assms consider
    "running c = [] \<and> currentJob (the_world c) = None \<and> pending_keys (the_world c) = []"
    | "\<exists>jb a. running c = [(hd (pending_keys (the_world c)), jb, a)] \<and>
               currentJob (the_world c) = Some (hd (pending_keys (the_world c))) \<and>
               pending_keys (the_world c) \<noteq> []"
    unfolding loop_inv_def by blast
  then show ?thesis
  proof cases
    case 1
    then show ?thesis using idle by (simp add: pending_keys_def)
  next
    case 2
    then obtain jb a where r: "running c = [(hd (pending_keys (the_world c)), jb, a)]"
      "currentJob (the_world c) = Some (hd (pending_keys (the_world c)))"
      "pending_keys (the_world c) \<noteq> []"
      by blast
    have ne: "pendingJobs (the_world c) \<noteq> []" using r(3) by (simp add: pending_keys_def)
    have h: "hd (pending_keys (the_world c)) = fst (hd (pendingJobs (the_world c)))"
      using ne by (simp add: pending_keys_def hd_map)
    have "hd (pending_keys (the_world c)) \<in> set (pending_keys (the_world c))"
      using r(3) by simp
    moreover have "[] \<notin> set (pending_keys (the_world c))" using assms by (simp add: loop_inv_def)
    ultimately have "hd (pending_keys (the_world c)) \<noteq> []" by metis
    then show ?thesis using busy [of jb a] r ne h by simp
  qed
qed

lemma inv_keys:
  "loop_inv c \<Longrightarrow> distinct (pending_keys (the_world c)) \<and> [] \<notin> set (pending_keys (the_world c))"
  by (simp add: loop_inv_def)

lemma inv_same:
  assumes "loop_inv c" "running c' = running c" "pendingJobs (the_world c') = pendingJobs (the_world c)"
    "currentJob (the_world c') = currentJob (the_world c)"
  shows "loop_inv c'"
  using assms by (simp add: loop_inv_def pending_keys_def)

lemma tick_result:
  "loop_inv c \<Longrightarrow> loop_inv (step pf Tick c) \<and>
     pending_keys (the_world (step pf Tick c)) = pending_keys (the_world c)"
  by (auto simp: Let_def pending_keys_def elim!: inv_same [rotated -1] intro: inv_same)

lemma elapse_result:
  "loop_inv c \<Longrightarrow> loop_inv (step pf (Elapse d) c) \<and>
     pending_keys (the_world (step pf (Elapse d) c)) = pending_keys (the_world c)"
  by (auto simp: elapse_def pending_keys_def intro: inv_same)

lemma response_result:
  assumes i: "loop_inv c" and ids: "\<forall>k \<in> set (delivered_ids (Response r)). k \<noteq> []"
  shows "loop_inv (step pf (Response r) c) \<and>
         (\<exists>k new. pending_keys (the_world (step pf (Response r) c)) =
                   drop k (pending_keys (the_world c) @ new))"
proof -
  have same: "loop_inv c' \<and> (\<exists>k new. pending_keys (the_world c') = drop k (pending_keys (the_world c) @ new))"
    if "running c' = running c" "the_world c' = the_world c" for c'
  proof -
    have "loop_inv c'" using i that by (simp add: loop_inv_def)
    moreover have "pending_keys (the_world c') = drop 0 (pending_keys (the_world c) @ [])"
      using that by simp
    ultimately show ?thesis by blast
  qed
  show ?thesis
  proof (cases "in_flight c = 0")
    case True
    then show ?thesis using same [of c] by simp
  next
    case False
    define c0 where "c0 = c\<lparr>in_flight := in_flight c - 1\<rparr>"
    have c0: "running c0 = running c" "the_world c0 = the_world c" by (simp_all add: c0_def)
    show ?thesis
    proof (cases r)
      case (Inl m)
      then have "step pf (Response r) c = c0" using False by (simp add: c0_def)
      then show ?thesis using same [OF c0] by simp
    next
      case (Inr jobs)
      show ?thesis
      proof (cases "jobs = []")
        case True
        then have "step pf (Response r) c = c0" using False Inr by (simp add: c0_def)
        then show ?thesis using same [OF c0] by simp
      next
        case ne: False
        define w2 where "w2 = poll_deliver jobs (the_world c)"
        define c2 where "c2 = c0\<lparr>the_world := w2\<rparr>"
        have st: "step pf (Response r) c =
                    (if \<not> truthy (currentJob w2) \<and> length (pendingJobs w2) > 0
                     then processJob_call pf (fst (hd (pendingJobs w2))) c2 else c2)"
          using False Inr ne by (simp add: c0_def c2_def w2_def Let_def)
        obtain new where n: "pending_keys w2 = pending_keys (the_world c) @ new"
          "set new \<subseteq> set (map job_id jobs)"
          "distinct (pending_keys (the_world c)) \<longrightarrow> distinct (pending_keys (the_world c) @ new)"
          "pending_keys (the_world c) @ new \<noteq> []"
          using poll_deliver_keys [of jobs "the_world c"] ne unfolding w2_def by blast
        have "\<forall>k \<in> set (map job_id jobs). k \<noteq> []" using ids Inr by simp
        then have nn: "[] \<notin> set new" using n(2) by blast
        have d2: "distinct (pending_keys w2)" "[] \<notin> set (pending_keys w2)"
          using inv_keys [OF i] n(1,3) nn by auto
        have p2: "pendingJobs w2 \<noteq> []" using n(1,4) by (auto simp: pending_keys_def)
        have cur: "currentJob w2 = currentJob (the_world c)" by (simp add: w2_def)
        from i show ?thesis
        proof (cases rule: inv_cases)
          case idle
          then have st': "step pf (Response r) c =
                           processJob_call pf (fst (hd (pendingJobs (the_world c2)))) c2"
            using st p2 cur by (simp add: truthy_def c2_def)
          have r2: "running c2 = []" using idle by (simp add: c2_def c0_def)
          have "loop_inv (processJob_call pf (fst (hd (pendingJobs (the_world c2)))) c2) \<and>
                (\<exists>k. pending_keys (the_world (processJob_call pf (fst (hd (pendingJobs (the_world c2)))) c2)) =
                     drop k (pending_keys (the_world c2)))"
            by (rule call_result) (use d2 r2 p2 in \<open>simp_all add: c2_def\<close>)
          then show ?thesis unfolding st' using n(1) by (auto simp: c2_def)
        next
          case (busy jb a)
          then have st': "step pf (Response r) c = c2"
            using st cur by (simp add: truthy_def)
          have h: "hd (pending_keys w2) = fst (hd (pendingJobs (the_world c)))"
            using n(1) busy(3) by (simp add: pending_keys_def hd_map)
          have "loop_inv c2"
            unfolding loop_inv_def using d2 busy cur h n(1,4) by (simp add: c2_def c0_def)
          moreover have "pending_keys (the_world c2) = drop 0 (pending_keys (the_world c) @ new)"
            using n(1) by (simp add: c2_def)
          ultimately show ?thesis unfolding st' by blast
        qed
      qed
    qed
  qed
qed

lemma waits_conversion_single:
  "waits_conversion jobId [(j, jb', a)] = Some (jb, cv, p) \<Longrightarrow>
   j = jobId \<and> jb' = jb \<and> a = Conversion cv p"
  by (cases a) (auto split: if_splits)

lemma waits_print_single:
  "waits_print jobId [(j, jb', a)] = Some (jb, pname, final, orig) \<Longrightarrow>
   j = jobId \<and> jb' = jb \<and> a = Print pname final orig"
  by (cases a) (auto split: if_splits)

lemma converted_result:
  assumes i: "loop_inv c"
  shows "loop_inv (step pf (Converted jobId) c) \<and>
         (\<exists>k. pending_keys (the_world (step pf (Converted jobId) c)) =
              drop k (pending_keys (the_world c)))"
proof (cases "waits_conversion jobId (running c)")
  case None
  then have "step pf (Converted jobId) c = c" by simp
  moreover have "pending_keys (the_world c) = drop 0 (pending_keys (the_world c))" by simp
  ultimately show ?thesis using i by metis
next
  case (Some x)
  obtain jb cv p where x: "x = (jb, cv, p)" by (cases x)
  from i show ?thesis
  proof (cases rule: inv_cases)
    case idle
    then show ?thesis using Some by simp
  next
    case (busy jb' a)
    let ?w = "the_world c"
    from waits_conversion_single [of jobId _ jb' a jb cv p] Some x busy(1)
    have j: "fst (hd (pendingJobs ?w)) = jobId" and jb: "jb' = jb" and a: "a = Conversion cv p"
      by simp_all
    have run: "running c = [(jobId, jb, Conversion cv p)]" using busy(1) j jb a by simp
    obtain r f2 where o: "conversion_outcome pf cv p (files ?w) = (r, f2)"
      by (cases "conversion_outcome pf cv p (files ?w)")
    show ?thesis
    proof (cases r)
      case (Inl e)
      define w' where "w' = processJob_catch pf jobId e (?w\<lparr>files := f2\<rparr>)"
      define c' where "c' = c\<lparr>running := []\<rparr>"
      have st: "step pf (Converted jobId) c = processJob_leave pf (fst (hd (pendingJobs w'))) w' c'"
        using Some x o Inl run j by (simp add: w'_def c'_def catch_pending)
      have k: "pending_keys w' = pending_keys ?w"
        by (simp add: w'_def pending_keys_def catch_pending)
      have "loop_inv (processJob_leave pf (fst (hd (pendingJobs w'))) w' c') \<and>
         (\<exists>k. pending_keys (the_world (processJob_leave pf (fst (hd (pendingJobs w'))) w' c')) =
               drop k (pending_keys w'))"
        by (rule leave_result)
           (use inv_keys [OF i] k busy(3) in \<open>simp_all add: c'_def w'_def catch_pending\<close>)
      then show ?thesis unfolding st k .
    next
      case (Inr final)
      define w3 where "w3 = emit_if_connected pf (PrintStarted jobId) (?w\<lparr>files := f2\<rparr>)"
      have st: "step pf (Converted jobId) c =
                  c\<lparr>the_world := w3, running := [(jobId, jb, Print (printerName w3) final p)]\<rparr>"
        using Some x o Inr run by (simp add: w3_def Let_def)
      have k: "pendingJobs w3 = pendingJobs ?w" "currentJob w3 = currentJob ?w"
        by (simp_all add: w3_def emit_pending)
      have "loop_inv (step pf (Converted jobId) c)"
        unfolding st loop_inv_def using inv_keys [OF i] busy k j
        by (simp add: pending_keys_def hd_map)
      moreover have "pending_keys (the_world (step pf (Converted jobId) c)) =
                     drop 0 (pending_keys ?w)"
        unfolding st using k by (simp add: pending_keys_def)
      ultimately show ?thesis by blast
    qed
  qed
qed

lemma printed_result:
  assumes i: "loop_inv c"
  shows "loop_inv (step pf (Printed jobId) c) \<and>
         (\<exists>k. pending_keys (the_world (step pf (Printed jobId) c)) =
              drop k (pending_keys (the_world c)))"
proof (cases "waits_print jobId (running c)")
  case None
  then have "step pf (Printed jobId) c = c" by simp
  moreover have "pending_keys (the_world c) = drop 0 (pending_keys (the_world c))" by simp
  ultimately show ?thesis using i by metis
next
  case (Some x)
  obtain jb pname final orig where x: "x = (jb, pname, final, orig)" by (cases x)
  from i show ?thesis
  proof (cases rule: inv_cases)
    case idle
    then show ?thesis using Some by simp
  next
    case (busy jb' a)
    let ?w = "the_world c"
    from waits_print_single [of jobId _ jb' a jb pname final orig] Some x busy(1)
    have j: "fst (hd (pendingJobs ?w)) = jobId" and jb: "jb' = jb"
      and a: "a = Print pname final orig"
      by simp_all
    have run: "running c = [(jobId, jb, Print pname final orig)]" using busy(1) j jb a by simp
    obtain pr f4 where o: "printDocument pf pname final (pages jb) (files ?w) = (pr, f4)"
      by (cases "printDocument pf pname final (pages jb) (files ?w)")
    define w' where "w' = (case pr of
        Inl e \<Rightarrow> processJob_catch pf jobId e (?w\<lparr>files := f4\<rparr>)
      | Inr pages_printed \<Rightarrow>
          (let w5 = emit_if_connected pf (PrintComplete jobId True pages_printed None) (?w\<lparr>files := f4\<rparr>)
           in w5\<lparr>timers := timers w5 @ [Cleanup 5000 final orig]\<rparr>))"
    define c' where "c' = c\<lparr>running := []\<rparr>"
    have pj: "pendingJobs w' = pendingJobs ?w"
      by (simp add: w'_def catch_pending emit_pending Let_def split: sum.splits)
    have st: "step pf (Printed jobId) c = processJob_leave pf (fst (hd (pendingJobs w'))) w' c'"
      using Some x o run j by (simp add: pj) (simp add: w'_def c'_def Let_def split: sum.splits)
    have k: "pending_keys w' = pending_keys ?w"
      by (simp add: pending_keys_def pj)
    have "loop_inv (processJob_leave pf (fst (hd (pendingJobs w'))) w' c') \<and>
       (\<exists>k. pending_keys (the_world (processJob_leave pf (fst (hd (pendingJobs w'))) w' c')) =
             drop k (pending_keys w'))"
      by (rule leave_result)
         (use inv_keys [OF i] k busy(3) pj in \<open>simp_all add: c'_def\<close>)
    then show ?thesis unfolding st k .
  qed
qed

lemma step_result:
  assumes "loop_inv c" "\<forall>k \<in> set (delivered_ids ev). k \<noteq> []"
  shows "loop_inv (step pf ev c) \<and>
         (\<exists>k new. pending_keys (the_world (step pf ev c)) =
                   drop k (pending_keys (the_world c) @ new))"
proof (cases ev)
  case Tick
  then show ?thesis using tick_result [OF assms(1), of pf]
    by (metis append_Nil2 drop0)
next
  case (Response r)
  then show ?thesis using response_result [OF assms(1), of r pf] assms(2) by simp
next
  case (Converted j)
  then show ?thesis using converted_result [OF assms(1), of pf j] by (metis append_Nil2)
next
  case (Printed j)
  then show ?thesis using printed_result [OF assms(1), of pf j] by (metis append_Nil2)
next
  case (Elapse d)
  then show ?thesis using elapse_result [OF assms(1), of pf d]
    by (metis append_Nil2 drop0)
qed

lemma loop_init_inv: "loop_inv loop_init"
  by (simp add: loop_inv_def loop_init_def world_init_def pending_keys_def)

lemma run_inv:
  assumes "\<forall>ev \<in> set evs. \<forall>k \<in> set (delivered_ids ev). k \<noteq> []" "loop_inv c"
  shows "loop_inv (run pf evs c)"
  using assms
proof (induction evs arbitrary: c)
  case Nil
  then show ?case by (simp add: run_def)
next
  case (Cons ev evs)
  have "loop_inv (step pf ev c)" using step_result [of c ev pf] Cons.prems by simp
  then have "loop_inv (run pf evs (step pf ev c))" using Cons.IH Cons.prems(1) by simp
  then show ?case by (simp add: run_def)
qed

text \<open>
  When no job id is the empty string, the jobs go through the pipeline one at a time and
  in the order of their arrival. In every state the loop reaches, at most one call of
  \<open>processJob\<close> waits inside its \<open>try\<close> block; it is the call for the current job,
  which is the first key of the map; no call waits only when the map is empty, so a job
  that waits is begun as soon as the one before it has ended; and a turn of the loop takes
  keys from the front of the map and adds keys at its end, nothing else.
\<close>

lemma jobs_with_ids_one_at_a_time:
  assumes ids: "\<forall>ev \<in> set evs. \<forall>k \<in> set (delivered_ids ev). k \<noteq> []"
      and c: "c = run pf evs loop_init"
  shows "length (running c) \<le> 1 \<and>
         map fst (running c) = (case currentJob (the_world c) of None \<Rightarrow> [] | Some j \<Rightarrow> [j]) \<and>
         (running c = [] \<longleftrightarrow> pending_keys (the_world c) = []) \<and>
         (running c \<noteq> [] \<longrightarrow> fst (hd (running c)) = hd (pending_keys (the_world c))) \<and>
         distinct (pending_keys (the_world c)) \<and>
         ((\<forall>k \<in> set (delivered_ids ev). k \<noteq> []) \<longrightarrow>
            (\<exists>k new. pending_keys (the_world (step pf ev c)) =
                      drop k (pending_keys (the_world c) @ new)))"
proof -
  have i: "loop_inv c" unfolding c using ids loop_init_inv by (rule run_inv)
  have 1: "length (running c) \<le> 1 \<and>
         map fst (running c) = (case currentJob (the_world c) of None \<Rightarrow> [] | Some j \<Rightarrow> [j]) \<and>
         (running c = [] \<longleftrightarrow> pending_keys (the_world c) = []) \<and>
         (running c \<noteq> [] \<longrightarrow> fst (hd (running c)) = hd (pending_keys (the_world c)))"
    using i unfolding loop_inv_def by auto
  have 2: "distinct (pending_keys (the_world c))" using i by (simp add: loop_inv_def)
  have 3: "(\<forall>k \<in> set (delivered_ids ev). k \<noteq> []) \<longrightarrow>
            (\<exists>k new. pending_keys (the_world (step pf ev c)) =
                      drop k (pending_keys (the_world c) @ new))"
    using step_result [OF i, of ev pf] by blast
  show ?thesis using 1 2 3 by blast
qed

text \<open>
  A job with an id holds the pipeline: while \<open>j4\<close> is converted the second poll is
  skipped, nothing is delivered, and the job runs to its end alone.
\<close>

lemma job_with_id_runs_alone:
  "map fst (running (run office_platform (two_polls notes_job) loop_init)) = [''j4''] \<and>
   pollCount (the_world (run office_platform (two_polls notes_job) loop_init)) = 1 \<and>
   running (run office_platform (two_polls notes_job @ [Converted ''j4'', Printed ''j4''])
      loop_init) = [] \<and>
   emitted (the_world (run office_platform
      (two_polls notes_job @ [Converted ''j4'', Printed ''j4'']) loop_init)) =
     [JobReceived ''j4'', PrintStarted ''j4'', PrintComplete ''j4'' True (Some 2) None]"
proof -
  have 1: "map fst (running (run office_platform (two_polls notes_job) loop_init)) = [''j4'']"
    by code_simp
  have 2: "pollCount (the_world (run office_platform (two_polls notes_job) loop_init)) = 1"
    by code_simp
  have 3: "running (run office_platform (two_polls notes_job @ [Converted ''j4'', Printed ''j4''])
      loop_init) = []"
    by code_simp
  have 4: "emitted (the_world (run office_platform
      (two_polls notes_job @ [Converted ''j4'', Printed ''j4'']) loop_init)) =
     [JobReceived ''j4'', PrintStarted ''j4'', PrintComplete ''j4'' True (Some 2) None]"
    by code_simp
  show ?thesis using 1 2 3 4 by blast
qed

text \<open>
  Claim C2 does not hold of the code: a job whose id is the empty string does not hold the
  pipeline. \<open>pollForJobs\<close> tests \<open>state.currentJob\<close> for truth, and the empty string
  is not true. While the job is converted the second poll is therefore not skipped, and
  its answer calls \<open>processJob\<close> for the first key of the map, which is that job again:
  two calls for it are in the pipeline. When the first of them has printed, its
  \<open>finally\<close> block deletes the job and calls \<open>processJob\<close> for \<open>j6\<close>, while the second
  call is still converting: two different jobs are in the pipeline at once, \<open>j6\<close> being
  the current one.
\<close>

theorem empty_job_id_shares_the_pipeline:
  "map fst (running (run office_platform (two_polls blank_job) loop_init)) = [[], []] \<and>
   pollCount (the_world (run office_platform (two_polls blank_job) loop_init)) = 2 \<and>
   running (run office_platform (two_polls blank_job @ [Converted [], Printed []]) loop_init) =
     [([], blank_job, Conversion OfDocument ''print-queue/_notes.docx''),
      (''j6'', corrupt_job,
       Conversion
         (OfPdf (Inl (ConversionError ''PDF verification failed: No PDF header found'' ''pdf'')))
         ''print-queue/j6_broken.pdf'')] \<and>
   currentJob (the_world (run office_platform
      (two_polls blank_job @ [Converted [], Printed []]) loop_init)) = Some ''j6'' \<and>
   emitted (the_world (run office_platform
      (two_polls blank_job @ [Converted [], Printed []]) loop_init)) =
     [JobReceived [], JobReceived [], PrintStarted [], PrintComplete [] True (Some 2) None,
      JobReceived ''j6'']"
proof -
  have 1: "map fst (running (run office_platform (two_polls blank_job) loop_init)) = [[], []]"
    by code_simp
  have 2: "pollCount (the_world (run office_platform (two_polls blank_job) loop_init)) = 2"
    by code_simp
  have 3: "running (run office_platform (two_polls blank_job @ [Converted [], Printed []])
      loop_init) =
     [([], blank_job, Conversion OfDocument ''print-queue/_notes.docx''),
      (''j6'', corrupt_job,
       Conversion
         (OfPdf (Inl (ConversionError ''PDF verification failed: No PDF header found'' ''pdf'')))
         ''print-queue/j6_broken.pdf'')]"
    by code_simp
  have 4: "currentJob (the_world (run office_platform
      (two_polls blank_job @ [Converted [], Printed []]) loop_init)) = Some ''j6''"
    by code_simp
  have 5: "emitted (the_world (run office_platform
      (two_polls blank_job @ [Converted [], Printed []]) loop_init)) =
     [JobReceived [], JobReceived [], PrintStarted [], PrintComplete [] True (Some 2) None,
      JobReceived ''j6'']"
    by code_simp
  show ?thesis using 1 2 3 4 5 by blast
qed

end
